theory Spec2Isabelle
  imports Complex_Main "HOL-Library.AList"
begin

section \<open>Strings of the source language\<close>

text \<open>
  The program is TypeScript. Its strings are modelled as \<^typ>\<open>string\<close>, one \<^typ>\<open>char\<close>
  per code unit, which covers the code units below 256. Of the white space that
  \<^verbatim>\<open>String.prototype.trim\<close> removes, these are tab, line feed, vertical tab, form feed,
  carriage return, space and the no-break space. \<^verbatim>\<open>toUpperCase\<close> is modelled on ASCII text,
  where it maps \<^verbatim>\<open>a\<close>..\<^verbatim>\<open>z\<close> to \<^verbatim>\<open>A\<close>..\<^verbatim>\<open>Z\<close> and leaves every other character
  alone.
\<close>

definition is_space :: "char \<Rightarrow> bool" where
  "is_space c =
     (c \<in> set [CHR 0x09, CHR 0x0A, CHR 0x0B, CHR 0x0C, CHR 0x0D, CHR 0x20, CHR 0xA0])"

definition trim :: "string \<Rightarrow> string" where
  "trim s = rev (dropWhile is_space (rev (dropWhile is_space s)))"

definition upper_char :: "char \<Rightarrow> char" where
  "upper_char c =
     (case map_of (zip ''abcdefghijklmnopqrstuvwxyz'' ''ABCDEFGHIJKLMNOPQRSTUVWXYZ'') c of
        Some C \<Rightarrow> C
      | None \<Rightarrow> c)"

definition toUpperCase :: "string \<Rightarrow> string" where
  "toUpperCase s = map upper_char s"

text \<open>\<^verbatim>\<open>a || b\<close> on strings: the empty string is falsy.\<close>

definition or_else :: "string \<Rightarrow> string \<Rightarrow> string" where
  "or_else a b = (if a = [] then b else a)"

text \<open>\<^verbatim>\<open>msg.includes(pat)\<close>: \<^verbatim>\<open>pat\<close> occurs in \<^verbatim>\<open>msg\<close> as a contiguous substring.\<close>

fun str_includes :: "string \<Rightarrow> string \<Rightarrow> bool" where
  "str_includes [] pat = (pat = [])"
| "str_includes (c # cs) pat = (take (length pat) (c # cs) = pat \<or> str_includes cs pat)"

text \<open>A thrown \<^verbatim>\<open>Error\<close>, identified by its message.\<close>

datatype error = Error string

section \<open>Numbers\<close>

text \<open>
  A \<^verbatim>\<open>number\<close> is a binary64 floating-point number: a finite one, given by its value, a
  rational; the negative zero; an infinity; or NaN. \<open>Num 0\<close> is the positive zero. The
  results of arithmetic are rounded to the nearest number that has a significand of 53
  bits and an exponent from \<open>-1022\<close> to \<open>1023\<close> (below \<open>2^-1022\<close>, to the nearest multiple of
  \<open>2^-1074\<close>), a tie going to the even significand; a result that rounds to \<open>2^1024\<close> or
  more in magnitude is an infinity.
\<close>

datatype number = Num rat | NegZero | PosInfinity | NegInfinity | NaN

definition pow2 :: "int \<Rightarrow> rat" where
  "pow2 e = 2 powi e"

text \<open>\<open>exponent x\<close> is the integer \<open>e\<close> with \<open>2^e \<le> x < 2^(e + 1)\<close>, for a positive \<open>x\<close>: found
  by halving a number that is at least 1, and by doubling one that is less.\<close>

function log2_up :: "rat \<Rightarrow> int \<Rightarrow> int" where
  "log2_up x k = (if x < 2 then k else log2_up (x / 2) (k + 1))"
  by pat_completeness auto
termination
proof (relation "measure (\<lambda>(x, k). nat \<lfloor>x\<rfloor>)")
  show "wf (measure (\<lambda>(x :: rat, k :: int). nat \<lfloor>x\<rfloor>))" by simp
next
  fix x :: rat and k :: int
  assume "\<not> x < 2"
  then have "x / 2 \<le> x - 1" by simp
  then have "\<lfloor>x / 2\<rfloor> \<le> \<lfloor>x - 1\<rfloor>" by (rule floor_mono)
  moreover have "1 \<le> \<lfloor>x\<rfloor>" using \<open>\<not> x < 2\<close> by (simp add: le_floor_iff)
  ultimately show "((x / 2, k + 1), (x, k)) \<in> measure (\<lambda>(x, k). nat \<lfloor>x\<rfloor>)" by simp
qed

function log2_down :: "rat \<Rightarrow> int \<Rightarrow> int" where
  "log2_down x k = (if x \<le> 0 \<or> 1 \<le> x then k else log2_down (2 * x) (k - 1))"
  by pat_completeness auto
termination
proof (relation "measure (\<lambda>(x, k). nat \<lceil>1 / x\<rceil>)")
  show "wf (measure (\<lambda>(x :: rat, k :: int). nat \<lceil>1 / x\<rceil>))" by simp
next
  fix x :: rat and k :: int
  assume a: "\<not> (x \<le> 0 \<or> 1 \<le> x)"
  then have x: "0 < x" "x < 1" by simp_all
  then have y: "1 < 1 / x" by simp
  then have c: "2 \<le> \<lceil>1 / x\<rceil>" by (simp add: le_ceiling_iff)
  have "1 / x \<le> of_int \<lceil>1 / x\<rceil>" by (rule le_of_int_ceiling)
  then have "1 / (2 * x) \<le> of_int \<lceil>1 / x\<rceil> / 2" by simp
  also have "\<dots> \<le> of_int (\<lceil>1 / x\<rceil> - 1)" using c by simp
  finally have "1 / (2 * x) \<le> of_int (\<lceil>1 / x\<rceil> - 1)" .
  then have "\<lceil>1 / (2 * x)\<rceil> \<le> \<lceil>1 / x\<rceil> - 1" by (rule ceiling_le)
  with c have "nat \<lceil>1 / (2 * x)\<rceil> < nat \<lceil>1 / x\<rceil>" by linarith
  then show "((2 * x, k - 1), (x, k)) \<in> measure (\<lambda>(x, k). nat \<lceil>1 / x\<rceil>)"
    by (simp only: in_measure prod.case)
qed

declare log2_up.simps [simp del] log2_down.simps [simp del]

definition exponent :: "rat \<Rightarrow> int" where
  "exponent x = (if 1 \<le> x then log2_up x 0 else log2_down x 0)"

definition round_half_even :: "rat \<Rightarrow> int" where
  "round_half_even m =
     (let r = \<lfloor>m\<rfloor>; f = m - of_int r
      in if f < 1 / 2 then r
         else if 1 / 2 < f then r + 1
         else if even r then r else r + 1)"

text \<open>A positive rational rounded to 53 significant bits, or to a multiple of \<open>2^-1074\<close>.\<close>

definition round_pos :: "rat \<Rightarrow> rat" where
  "round_pos x =
     (let q = max (exponent x) (- 1022) - 52
      in of_int (round_half_even (x / pow2 q)) * pow2 q)"

text \<open>\<open>fl x\<close> is the number that an operation returns when its exact result is \<open>x\<close> and
  \<open>x\<close> is not an exact zero.\<close>

definition fl :: "rat \<Rightarrow> number" where
  "fl x =
     (if x = 0 then Num 0
      else if 0 < x then
        (let y = round_pos x in if pow2 1024 \<le> y then PosInfinity else Num y)
      else
        (let y = round_pos (- x)
         in if pow2 1024 \<le> y then NegInfinity else if y = 0 then NegZero else Num (- y)))"

text \<open>\<^verbatim>\<open>a + b\<close> on numbers.\<close>

fun js_add :: "number \<Rightarrow> number \<Rightarrow> number" where
  "js_add NaN b = NaN"
| "js_add a NaN = NaN"
| "js_add PosInfinity NegInfinity = NaN"
| "js_add NegInfinity PosInfinity = NaN"
| "js_add PosInfinity b = PosInfinity"
| "js_add a PosInfinity = PosInfinity"
| "js_add NegInfinity b = NegInfinity"
| "js_add a NegInfinity = NegInfinity"
| "js_add NegZero NegZero = NegZero"
| "js_add NegZero (Num b) = Num b"
| "js_add (Num a) NegZero = Num a"
| "js_add (Num a) (Num b) = fl (a + b)"

text \<open>\<^verbatim>\<open>a / n\<close> for the length \<open>n\<close> of an array: a natural number below \<open>2^32\<close>, which is a
  number exactly.\<close>

definition js_div_length :: "number \<Rightarrow> nat \<Rightarrow> number" where
  "js_div_length a n =
     (case a of
        NaN \<Rightarrow> NaN
      | PosInfinity \<Rightarrow> PosInfinity
      | NegInfinity \<Rightarrow> NegInfinity
      | NegZero \<Rightarrow> if n = 0 then NaN else NegZero
      | Num x \<Rightarrow>
          if n = 0 then (if x = 0 then NaN else if 0 < x then PosInfinity else NegInfinity)
          else fl (x / of_nat n))"

section \<open>Room codes\<close>

definition normalizeRoomCode :: "string \<Rightarrow> string" where
  "normalizeRoomCode code = toUpperCase (trim code)"

text \<open>
  \<^verbatim>\<open>Math.random()\<close> is an input of the model: \<open>rnd i\<close> is the result of the \<open>i\<close>-th call,
  a number that the language promises to lie in \<open>[0, 1)\<close>. Indexing a string out of range
  gives \<^verbatim>\<open>undefined\<close>, which \<^verbatim>\<open>+=\<close> appends as the text \<^verbatim>\<open>undefined\<close>.
\<close>

definition chars :: string where
  "chars = ''ABCDEFGHJKLMNPQRSTUVWXYZ23456789''"

definition char_at :: "string \<Rightarrow> int \<Rightarrow> string" where
  "char_at s i = (if 0 \<le> i \<and> i < int (length s) then [s ! nat i] else ''undefined'')"

fun generateRoomCode_loop :: "(nat \<Rightarrow> rat) \<Rightarrow> nat \<Rightarrow> nat \<Rightarrow> string \<Rightarrow> string" where
  "generateRoomCode_loop rnd 0 i out = out"
| "generateRoomCode_loop rnd (Suc n) i out =
     generateRoomCode_loop rnd n (Suc i)
       (out @ char_at chars \<lfloor>rnd i * of_nat (length chars)\<rfloor>)"

text \<open>
  \<open>generateRoomCode rnd k\<close> is a call of \<^verbatim>\<open>generateRoomCode()\<close> made when \<open>k\<close> random
  numbers have been drawn already: its four iterations draw \<open>rnd k\<close>, ..., \<open>rnd (k + 3)\<close>.
\<close>

definition generateRoomCode :: "(nat \<Rightarrow> rat) \<Rightarrow> nat \<Rightarrow> string" where
  "generateRoomCode rnd k = generateRoomCode_loop rnd 4 k ''''"

section \<open>Documents and the store\<close>

text \<open>
  The four document types of \<^verbatim>\<open>firebase.ts\<close>. A time stamp is a natural number; the
  value that \<^verbatim>\<open>serverTimestamp()\<close> resolves to is an input \<open>now\<close> of every operation.
  A participant document is written with \<^verbatim>\<open>{ merge: true }\<close>, and \<^verbatim>\<open>touchPresence\<close> merges
  a document that has the field \<^verbatim>\<open>lastSeenAt\<close> only, so a stored participant document may
  lack fields: each of its fields is optional. The value of a stored vote is a finite
  number, given as the rational that it is.
\<close>

type_synonym timestamp = nat

record RoomDoc =
  room_code :: string
  room_createdAt :: timestamp
  room_createdBy :: string
  currentRoundId :: "string option"
  updatedAt :: timestamp

record ParticipantDoc =
  participant_uid :: "string option"
  participant_name :: "string option"
  joinedAt :: "timestamp option"
  lastSeenAt :: "timestamp option"

record RoundDoc =
  round_createdAt :: timestamp
  round_createdBy :: string
  ticket :: string
  revealed :: bool

record VoteDoc =
  vote_uid :: string
  vote_value :: rat
  vote_createdAt :: timestamp

text \<open>
  The store holds the documents by path:
  \<^verbatim>\<open>rooms/{code}\<close>, \<^verbatim>\<open>rooms/{code}/participants/{uid}\<close>, \<^verbatim>\<open>rooms/{code}/rounds/{roundId}\<close>
  and \<^verbatim>\<open>rooms/{code}/rounds/{roundId}/votes/{uid}\<close>. Each collection is an association
  list from the path's identifiers to the document.
\<close>

record store =
  rooms :: "(string \<times> RoomDoc) list"
  participants :: "((string \<times> string) \<times> ParticipantDoc) list"
  rounds :: "((string \<times> string) \<times> RoundDoc) list"
  votes :: "((string \<times> string \<times> string) \<times> VoteDoc) list"

text \<open>
  The writes that the program sends:
  \<^item> \<open>SetRoom code d\<close> is \<^verbatim>\<open>setDoc(doc(db, "rooms", code), d)\<close>;
  \<^item> \<open>MergeParticipant code uid d\<close> is
    \<^verbatim>\<open>setDoc(doc(db, "rooms", code, "participants", uid), d, { merge: true })\<close>;
  \<^item> \<open>DeleteParticipant code uid\<close> is \<^verbatim>\<open>deleteDoc\<close> of that document;
  \<^item> \<open>AddRound code id d\<close> is \<^verbatim>\<open>addDoc(collection(db, "rooms", code, "rounds"), d)\<close>, where
    \<open>id\<close> is the identifier generated for the new document;
  \<^item> \<open>UpdateRoom code r t\<close> is
    \<^verbatim>\<open>updateDoc(doc(db, "rooms", code), { currentRoundId: r, updatedAt: t })\<close>;
  \<^item> \<open>UpdateRound code id b\<close> is
    \<^verbatim>\<open>updateDoc(doc(db, "rooms", code, "rounds", id), { revealed: b })\<close>;
  \<^item> \<open>SetVote code id uid d\<close> is
    \<^verbatim>\<open>setDoc(doc(db, "rooms", code, "rounds", id, "votes", uid), d)\<close>.
\<close>

datatype store_write =
    SetRoom string RoomDoc
  | MergeParticipant string string ParticipantDoc
  | DeleteParticipant string string
  | AddRound string string RoundDoc
  | UpdateRoom string "string option" timestamp
  | UpdateRound string string bool
  | SetVote string string string VoteDoc

definition merge_participant :: "ParticipantDoc \<Rightarrow> ParticipantDoc \<Rightarrow> ParticipantDoc" where
  "merge_participant new old =
     \<lparr> participant_uid =
         (case participant_uid new of Some v \<Rightarrow> Some v | None \<Rightarrow> participant_uid old),
       participant_name =
         (case participant_name new of Some v \<Rightarrow> Some v | None \<Rightarrow> participant_name old),
       joinedAt = (case joinedAt new of Some v \<Rightarrow> Some v | None \<Rightarrow> joinedAt old),
       lastSeenAt = (case lastSeenAt new of Some v \<Rightarrow> Some v | None \<Rightarrow> lastSeenAt old) \<rparr>"

definition not_found :: string where
  "not_found = ''No document to update''"

definition already_exists :: string where
  "already_exists = ''Document already exists''"

text \<open>
  What the store does with a write it accepts. \<^verbatim>\<open>setDoc\<close> creates the document or replaces
  it; with \<^verbatim>\<open>merge\<close> it creates the document or overwrites the fields given; \<^verbatim>\<open>deleteDoc\<close>
  removes the document, if there is one; \<^verbatim>\<open>updateDoc\<close> overwrites the fields given and fails
  on a document that does not exist; \<^verbatim>\<open>addDoc\<close> creates a document and fails if there is
  one under the generated identifier already.
\<close>

fun apply_write :: "store_write \<Rightarrow> store \<Rightarrow> (error + unit) \<times> store" where
  "apply_write (SetRoom c d) s = (Inr (), s\<lparr>rooms := AList.update c d (rooms s)\<rparr>)"
| "apply_write (MergeParticipant c u d) s =
     (Inr (), s\<lparr>participants :=
        AList.update (c, u)
          (case map_of (participants s) (c, u) of
             None \<Rightarrow> d
           | Some old \<Rightarrow> merge_participant d old)
          (participants s)\<rparr>)"
| "apply_write (DeleteParticipant c u) s =
     (Inr (), s\<lparr>participants := AList.delete (c, u) (participants s)\<rparr>)"
| "apply_write (AddRound c i d) s =
     (case map_of (rounds s) (c, i) of
        Some old \<Rightarrow> (Inl (Error already_exists), s)
      | None \<Rightarrow> (Inr (), s\<lparr>rounds := AList.update (c, i) d (rounds s)\<rparr>))"
| "apply_write (UpdateRoom c r t) s =
     (case map_of (rooms s) c of
        None \<Rightarrow> (Inl (Error not_found), s)
      | Some d \<Rightarrow>
          (Inr (), s\<lparr>rooms := AList.update c (d\<lparr>currentRoundId := r, updatedAt := t\<rparr>) (rooms s)\<rparr>))"
| "apply_write (UpdateRound c i b) s =
     (case map_of (rounds s) (c, i) of
        None \<Rightarrow> (Inl (Error not_found), s)
      | Some d \<Rightarrow> (Inr (), s\<lparr>rounds := AList.update (c, i) (d\<lparr>revealed := b\<rparr>) (rounds s)\<rparr>))"
| "apply_write (SetVote c i u d) s =
     (Inr (), s\<lparr>votes := AList.update (c, i, u) d (votes s)\<rparr>)"

text \<open>
  The backend may reject a write before it is applied: its access rules deny it, or the
  request does not reach it. That answer is an input of the model: \<open>pol s w\<close> is \<open>None\<close>
  when the write \<open>w\<close> is let through in the state \<open>s\<close>, and \<open>Some msg\<close> when it is rejected
  with an error whose message is \<open>msg\<close>. A rejected write changes nothing.
\<close>

type_synonym policy = "store \<Rightarrow> store_write \<Rightarrow> string option"

definition commit :: "policy \<Rightarrow> store_write \<Rightarrow> store \<Rightarrow> (error + unit) \<times> store" where
  "commit pol w s =
     (case pol s w of
        Some msg \<Rightarrow> (Inl (Error msg), s)
      | None \<Rightarrow> apply_write w s)"

section \<open>Document references\<close>

text \<open>
  \<^verbatim>\<open>doc(db, c1, ..., cn)\<close> builds the reference of a document from the path components
  \<open>c1\<close>, ..., \<open>cn\<close>. It throws an error of the code \<^verbatim>\<open>invalid-argument\<close> if a component
  contains \<^verbatim>\<open>//\<close>; otherwise it splits every component at \<^verbatim>\<open>/\<close>, leaves the empty pieces
  out, and throws that error again unless the number of segments is even. The program does
  not inspect this error; it is named by its code here.
\<close>

fun split_slash :: "string \<Rightarrow> string list" where
  "split_slash [] = [[]]"
| "split_slash (c # cs) =
     (if c = CHR ''/'' then [] # split_slash cs
      else (case split_slash cs of
              [] \<Rightarrow> [[c]]
            | seg # segs \<Rightarrow> (c # seg) # segs))"

definition path_segments :: "string \<Rightarrow> string list" where
  "path_segments path = filter (\<lambda>segment. segment \<noteq> []) (split_slash path)"

definition invalid_argument :: string where
  "invalid_argument = ''invalid-argument''"

definition doc :: "string list \<Rightarrow> error + string list" where
  "doc components =
     (if list_ex (\<lambda>path. str_includes path ''//'') components
      then Inl (Error invalid_argument)
      else
        let segments = concat (map path_segments components)
        in if even (length segments) then Inr segments
           else Inl (Error invalid_argument))"

section \<open>The operations of \<^verbatim>\<open>firebase.ts\<close>\<close>

text \<open>
  \<^verbatim>\<open>ensureAnonAuth\<close> returns the current user if there is one; otherwise it waits for the
  first report of the authentication state and, if that is no user either, signs in
  anonymously, which may fail.
\<close>

record auth_env =
  currentUser :: "string option"
  reportedUser :: "string option"
  signInAnonymously :: "error + string"

definition ensureAnonAuth :: "auth_env \<Rightarrow> error + string" where
  "ensureAnonAuth a =
     (case currentUser a of
        Some u \<Rightarrow> Inr u
      | None \<Rightarrow> (case reportedUser a of Some u \<Rightarrow> Inr u | None \<Rightarrow> signInAnonymously a))"

text \<open>
  Every operation but \<^verbatim>\<open>revealRound\<close> and \<^verbatim>\<open>clearCurrentRound\<close> starts with
  \<^verbatim>\<open>const user = await ensureAnonAuth()\<close>. The operations below take the outcome of that
  call as their argument \<open>user\<close>: \<open>Inl e\<close> when it throws \<open>e\<close>, which the operation
  passes on, and \<open>Inr uid\<close> when it returns the user whose identifier is \<open>uid\<close>.
\<close>

definition permission_denied :: string where
  "permission_denied = ''Missing or insufficient permissions''"

text \<open>The body of the \<^verbatim>\<open>try\<close> block of \<^verbatim>\<open>createRoom\<close>: the room document first, then the
  participant document; the first write that fails ends the block.\<close>

definition createRoom_try ::
  "policy \<Rightarrow> string \<Rightarrow> string \<Rightarrow> RoomDoc \<Rightarrow> ParticipantDoc \<Rightarrow> store
     \<Rightarrow> (error + unit) \<times> store" where
  "createRoom_try pol code uid room participant s =
     (case commit pol (SetRoom code room) s of
        (Inl e, s1) \<Rightarrow> (Inl e, s1)
      | (Inr u, s1) \<Rightarrow> commit pol (MergeParticipant code uid participant) s1)"

function createRoom_loop ::
  "policy \<Rightarrow> (nat \<Rightarrow> rat) \<Rightarrow> timestamp \<Rightarrow> string \<Rightarrow> string \<Rightarrow> nat \<Rightarrow> store
     \<Rightarrow> (error + string) \<times> store" where
  "createRoom_loop pol rnd now uid name attempt s =
     (if attempt < 10 then
        let code = generateRoomCode rnd (4 * attempt);
            room = \<lparr> room_code = code, room_createdAt = now, room_createdBy = uid,
                     currentRoundId = None, updatedAt = now \<rparr>;
            participant = \<lparr> participant_uid = Some uid,
                            participant_name = Some (or_else (trim name) ''Guest''),
                            joinedAt = Some now, lastSeenAt = Some now \<rparr>
        in case createRoom_try pol code uid room participant s of
             (Inr u, s2) \<Rightarrow> (Inr code, s2)
           | (Inl (Error msg), s2) \<Rightarrow>
               if str_includes msg permission_denied \<and> attempt < 9
               then createRoom_loop pol rnd now uid name (attempt + 1) s2
               else (Inl (Error msg), s2)
      else (Inl (Error ''Failed to create a unique room code. Please try again.''), s))"
  by pat_completeness auto
termination
  by (relation "measure (\<lambda>(pol, rnd, now, uid, name, attempt, s). 10 - attempt)") auto

declare createRoom_loop.simps [simp del]

definition createRoom ::
  "policy \<Rightarrow> error + string \<Rightarrow> (nat \<Rightarrow> rat) \<Rightarrow> timestamp \<Rightarrow> string \<Rightarrow> store
     \<Rightarrow> (error + string) \<times> store" where
  "createRoom pol user rnd now name s =
     (case user of
        Inl e \<Rightarrow> (Inl e, s)
      | Inr uid \<Rightarrow> createRoom_loop pol rnd now uid name 0 s)"

text \<open>
  \<^verbatim>\<open>joinRoom\<close> builds the reference of the participant document before its \<^verbatim>\<open>try\<close> block,
  so an error of \<^verbatim>\<open>doc\<close> is thrown as it is and no write is sent. The write goes to the
  participant document that the store holds under the code and the user identifier; for a
  code and an identifier that are not empty and contain no \<^verbatim>\<open>/\<close>, these two are the
  segments of the reference, and that document is the one that is written.
\<close>

definition joinRoom ::
  "policy \<Rightarrow> error + string \<Rightarrow> timestamp \<Rightarrow> string \<Rightarrow> string \<Rightarrow> store
     \<Rightarrow> (error + unit) \<times> store" where
  "joinRoom pol user now code0 name s =
     (case user of
        Inl e \<Rightarrow> (Inl e, s)
      | Inr uid \<Rightarrow>
          let code = normalizeRoomCode code0
          in case doc [''rooms'', code, ''participants'', uid] of
               Inl e \<Rightarrow> (Inl e, s)
             | Inr participantRef \<Rightarrow>
                 let participant = \<lparr> participant_uid = Some uid,
                                     participant_name = Some (or_else (trim name) ''Guest''),
                                     joinedAt = Some now, lastSeenAt = Some now \<rparr>
                 in case commit pol (MergeParticipant code uid participant) s of
                      (Inr u, s1) \<Rightarrow> (Inr (), s1)
                    | (Inl (Error msg), s1) \<Rightarrow>
                        if str_includes msg permission_denied
                        then (Inl (Error ''Room not found.''), s1)
                        else (Inl (Error msg), s1))"

definition touchPresence ::
  "policy \<Rightarrow> error + string \<Rightarrow> timestamp \<Rightarrow> string \<Rightarrow> store \<Rightarrow> (error + unit) \<times> store" where
  "touchPresence pol user now code s =
     (case user of
        Inl e \<Rightarrow> (Inl e, s)
      | Inr uid \<Rightarrow>
          commit pol
            (MergeParticipant (normalizeRoomCode code) uid
               \<lparr> participant_uid = None, participant_name = None,
                 joinedAt = None, lastSeenAt = Some now \<rparr>) s)"

definition leaveRoom ::
  "policy \<Rightarrow> error + string \<Rightarrow> string \<Rightarrow> store \<Rightarrow> (error + unit) \<times> store" where
  "leaveRoom pol user code s =
     (case user of
        Inl e \<Rightarrow> (Inl e, s)
      | Inr uid \<Rightarrow> commit pol (DeleteParticipant (normalizeRoomCode code) uid) s)"

text \<open>\<open>newId\<close> is the identifier that \<^verbatim>\<open>addDoc\<close> generates for the round.\<close>

definition startRound ::
  "policy \<Rightarrow> error + string \<Rightarrow> string \<Rightarrow> timestamp \<Rightarrow> string \<Rightarrow> string \<Rightarrow> store
     \<Rightarrow> (error + string) \<times> store" where
  "startRound pol user newId now code0 ticket0 s =
     (case user of
        Inl e \<Rightarrow> (Inl e, s)
      | Inr uid \<Rightarrow>
          let code = normalizeRoomCode code0
          in case commit pol
                    (AddRound code newId
                       \<lparr> round_createdAt = now, round_createdBy = uid,
                         ticket = trim ticket0, revealed = False \<rparr>) s of
               (Inl e, s1) \<Rightarrow> (Inl e, s1)
             | (Inr u, s1) \<Rightarrow>
                 (case commit pol (UpdateRoom code (Some newId) now) s1 of
                    (Inl e, s2) \<Rightarrow> (Inl e, s2)
                  | (Inr u, s2) \<Rightarrow> (Inr newId, s2)))"

definition revealRound ::
  "policy \<Rightarrow> string \<Rightarrow> string \<Rightarrow> store \<Rightarrow> (error + unit) \<times> store" where
  "revealRound pol code0 roundId s =
     (let code = normalizeRoomCode code0
      in commit pol (UpdateRound code roundId True) s)"

definition clearCurrentRound ::
  "policy \<Rightarrow> timestamp \<Rightarrow> string \<Rightarrow> store \<Rightarrow> (error + unit) \<times> store" where
  "clearCurrentRound pol now code0 s =
     (let code = normalizeRoomCode code0
      in commit pol (UpdateRoom code None now) s)"

definition castVote ::
  "policy \<Rightarrow> error + string \<Rightarrow> timestamp \<Rightarrow> string \<Rightarrow> string \<Rightarrow> rat \<Rightarrow> store
     \<Rightarrow> (error + unit) \<times> store" where
  "castVote pol user now code0 roundId v s =
     (case user of
        Inl e \<Rightarrow> (Inl e, s)
      | Inr uid \<Rightarrow>
          let code = normalizeRoomCode code0
          in commit pol
               (SetVote code roundId uid
                  \<lparr> vote_uid = uid, vote_value = v, vote_createdAt = now \<rparr>) s)"

section \<open>The room view\<close>

text \<open>
  The component \<^verbatim>\<open>Room\<close> keeps \<^verbatim>\<open>room\<close>, \<^verbatim>\<open>participants\<close>, \<^verbatim>\<open>round\<close> and \<^verbatim>\<open>votes\<close>, each
  replaced as a whole by the latest snapshot of its listener. \<^verbatim>\<open>votes\<close> is a \<^verbatim>\<open>Map\<close> from
  the document identifier to the vote document: an association list, in insertion order.
  The value of a vote enters the summary as the number that it is; the sum starts from 0
  and takes the values in the order of the map.
\<close>

record Summary =
  avg :: "number option"
  count :: nat

definition summary :: "bool \<Rightarrow> (string \<times> VoteDoc) list \<Rightarrow> Summary option" where
  "summary is_revealed vs =
     (if \<not> is_revealed then None
      else
        let vals = map (\<lambda>v. Num (vote_value v)) (map snd vs)
        in if length vals = 0 then Some \<lparr> avg = None, count = 0 \<rparr>
           else
             let sum = foldl (\<lambda>a b. js_add a b) (Num 0) vals;
                 avg = js_div_length sum (length vals)
             in Some \<lparr> avg = Some avg, count = length vals \<rparr>)"

record view =
  view_room :: "RoomDoc option"
  view_participants :: "ParticipantDoc list"
  view_round :: "(string \<times> RoundDoc) option"
  view_votes :: "(string \<times> VoteDoc) list"

text \<open>
  The snapshots. The participants are queried with \<^verbatim>\<open>orderBy("joinedAt", "asc")\<close>, which
  leaves out the documents that have no such field; documents of equal \<^verbatim>\<open>joinedAt\<close> are
  kept in the order of the store here.
\<close>

definition participants_snapshot :: "store \<Rightarrow> string \<Rightarrow> ParticipantDoc list" where
  "participants_snapshot s code =
     map snd
       (sort_key (\<lambda>(k, d). case joinedAt d of Some t \<Rightarrow> t | None \<Rightarrow> 0)
          (filter (\<lambda>((c, u), d). c = code \<and> joinedAt d \<noteq> None) (participants s)))"

definition votes_of_round :: "store \<Rightarrow> string \<Rightarrow> string \<Rightarrow> (string \<times> VoteDoc) list" where
  "votes_of_round s code roundId =
     map (\<lambda>((c, i, u), d). (u, d))
       (filter (\<lambda>((c, i, u), d). c = code \<and> i = roundId) (votes s))"

definition votes_snapshot :: "store \<Rightarrow> string \<Rightarrow> string \<Rightarrow> (string \<times> VoteDoc) list" where
  "votes_snapshot s code roundId =
     foldl (\<lambda>m (i, d). AList.update i d m) [] (votes_of_round s code roundId)"

text \<open>
  The effect that depends on \<^verbatim>\<open>room?.currentRoundId\<close>: without a code or a current round
  identifier (\<^verbatim>\<open>null\<close> and the empty string are falsy) it sets \<^verbatim>\<open>round\<close> to \<^verbatim>\<open>null\<close> and
  \<^verbatim>\<open>votes\<close> to an empty map; otherwise it listens to the round document and its votes.
\<close>

definition round_votes_effect ::
  "store \<Rightarrow> string \<Rightarrow> RoomDoc option
     \<Rightarrow> (string \<times> RoundDoc) option \<times> (string \<times> VoteDoc) list" where
  "round_votes_effect s code room =
     (case room of
        None \<Rightarrow> (None, [])
      | Some r \<Rightarrow>
          (case currentRoundId r of
             None \<Rightarrow> (None, [])
           | Some roundId \<Rightarrow>
               if code = [] \<or> roundId = [] then (None, [])
               else
                 ((case map_of (rounds s) (code, roundId) of
                     None \<Rightarrow> None
                   | Some d \<Rightarrow> Some (roundId, d)),
                  votes_snapshot s code roundId)))"

text \<open>
  \<open>room_view s code0\<close> is the state of the component shown for the route parameter
  \<open>code0\<close> once every listener has delivered the snapshot of the store \<open>s\<close>.
\<close>

definition room_view :: "store \<Rightarrow> string \<Rightarrow> view" where
  "room_view s code0 =
     (let code = normalizeRoomCode code0;
          room = (if code = [] then None else map_of (rooms s) code);
          ps = (if code = [] then [] else participants_snapshot s code);
          rv = round_votes_effect s code room
      in \<lparr> view_room = room, view_participants = ps,
           view_round = fst rv, view_votes = snd rv \<rparr>)"

definition view_revealed :: "view \<Rightarrow> bool" where
  "view_revealed v = (case view_round v of None \<Rightarrow> False | Some (i, r) \<Rightarrow> revealed r)"

definition view_summary :: "view \<Rightarrow> Summary option" where
  "view_summary v = summary (view_revealed v) (view_votes v)"

section \<open>Runs\<close>

text \<open>One call of any operation, by any caller, with any arguments and any answer of the
  backend, takes the store from \<open>s\<close> to \<open>s'\<close>.\<close>

inductive step :: "store \<Rightarrow> store \<Rightarrow> bool" where
  createRoom: "step s (snd (createRoom pol user rnd now name s))"
| joinRoom: "step s (snd (joinRoom pol user now code name s))"
| touchPresence: "step s (snd (touchPresence pol user now code s))"
| leaveRoom: "step s (snd (leaveRoom pol user code s))"
| startRound: "step s (snd (startRound pol user newId now code ticket0 s))"
| revealRound: "step s (snd (revealRound pol code roundId s))"
| clearCurrentRound: "step s (snd (clearCurrentRound pol now code s))"
| castVote: "step s (snd (castVote pol user now code roundId v s))"

text \<open>A sequence of \<^verbatim>\<open>castVote\<close> calls in one round, each by the participant \<open>uid\<close> at the
  time \<open>now\<close> with the value \<open>v\<close>.\<close>

fun castVotes ::
  "policy \<Rightarrow> string \<Rightarrow> string \<Rightarrow> (string \<times> timestamp \<times> rat) list \<Rightarrow> store \<Rightarrow> store" where
  "castVotes pol code roundId [] s = s"
| "castVotes pol code roundId ((uid, now, v) # calls) s =
     castVotes pol code roundId calls (snd (castVote pol (Inr uid) now code roundId v s))"

section \<open>The access rules\<close>

text \<open>
  Modelled from the spec: the access rules of the store, which are not part of the
  sources. A room cannot be created over an existing code, and a participant cannot be
  written under a room that does not exist; the store answers both with a permission
  failure. Everything else is let through.
\<close>

definition spec_rules :: policy where
  "spec_rules s w =
     (case w of
        SetRoom c d \<Rightarrow>
          (case map_of (rooms s) c of
             Some old \<Rightarrow> Some ''Missing or insufficient permissions.''
           | None \<Rightarrow> None)
      | MergeParticipant c u d \<Rightarrow>
          (case map_of (rooms s) c of
             None \<Rightarrow> Some ''Missing or insufficient permissions.''
           | Some r \<Rightarrow> None)
      | DeleteParticipant c u \<Rightarrow> None
      | AddRound c i d \<Rightarrow> None
      | UpdateRoom c r t \<Rightarrow> None
      | UpdateRound c i b \<Rightarrow> None
      | SetVote c i u d \<Rightarrow> None)"

text \<open>A backend that lets every write through.\<close>

definition accept_all :: policy where
  "accept_all s w = None"

section \<open>Sample data\<close>

text \<open>A room \<^verbatim>\<open>ABCD\<close> with its host and a second participant, before any round.\<close>

definition lobby :: store where
  "lobby =
     \<lparr> rooms =
         [(''ABCD'', \<lparr> room_code = ''ABCD'', room_createdAt = 1, room_createdBy = ''host'',
                      currentRoundId = None, updatedAt = 1 \<rparr>)],
       participants =
         [((''ABCD'', ''host''),
             \<lparr> participant_uid = Some ''host'', participant_name = Some ''Ann'',
               joinedAt = Some 1, lastSeenAt = Some 1 \<rparr>),
          ((''ABCD'', ''bo''),
             \<lparr> participant_uid = Some ''bo'', participant_name = Some ''Bo'',
               joinedAt = Some 2, lastSeenAt = Some 2 \<rparr>)],
       rounds = [],
       votes = [] \<rparr>"

text \<open>The same room with the round \<^verbatim>\<open>r1\<close> open and both participants' votes, 3 and 5.\<close>

definition voting :: store where
  "voting =
     \<lparr> rooms =
         [(''ABCD'', \<lparr> room_code = ''ABCD'', room_createdAt = 1, room_createdBy = ''host'',
                      currentRoundId = Some ''r1'', updatedAt = 3 \<rparr>)],
       participants =
         [((''ABCD'', ''host''),
             \<lparr> participant_uid = Some ''host'', participant_name = Some ''Ann'',
               joinedAt = Some 1, lastSeenAt = Some 1 \<rparr>),
          ((''ABCD'', ''bo''),
             \<lparr> participant_uid = Some ''bo'', participant_name = Some ''Bo'',
               joinedAt = Some 2, lastSeenAt = Some 2 \<rparr>)],
       rounds =
         [((''ABCD'', ''r1''),
             \<lparr> round_createdAt = 3, round_createdBy = ''host'',
               ticket = ''AUTH-123'', revealed = False \<rparr>)],
       votes =
         [((''ABCD'', ''r1'', ''host''),
             \<lparr> vote_uid = ''host'', vote_value = 3, vote_createdAt = 4 \<rparr>),
          ((''ABCD'', ''r1'', ''bo''),
             \<lparr> vote_uid = ''bo'', vote_value = 5, vote_createdAt = 5 \<rparr>)] \<rparr>"

text \<open>A backend that cannot be reached for updates of a room document.\<close>

definition room_updates_unavailable :: policy where
  "room_updates_unavailable s w =
     (case w of
        SetRoom c d \<Rightarrow> None
      | MergeParticipant c u d \<Rightarrow> None
      | DeleteParticipant c u \<Rightarrow> None
      | AddRound c i d \<Rightarrow> None
      | UpdateRoom c r t \<Rightarrow> Some ''unavailable''
      | UpdateRound c i b \<Rightarrow> None
      | SetVote c i u d \<Rightarrow> None)"

text \<open>Access rules that refuse a vote once its round is revealed.\<close>

definition votes_closed_after_reveal :: policy where
  "votes_closed_after_reveal s w =
     (case w of
        SetRoom c d \<Rightarrow> None
      | MergeParticipant c u d \<Rightarrow> None
      | DeleteParticipant c u \<Rightarrow> None
      | AddRound c i d \<Rightarrow> None
      | UpdateRoom c r t \<Rightarrow> None
      | UpdateRound c i b \<Rightarrow> None
      | SetVote c i u d \<Rightarrow>
          (case map_of (rounds s) (c, i) of
             None \<Rightarrow> None
           | Some r \<Rightarrow>
               if revealed r then Some ''Missing or insufficient permissions.'' else None))"

text \<open>The round \<^verbatim>\<open>r1\<close> revealed, and what follows when a vote is cast on it all the same and
  the host starts another round.\<close>

definition after_reveal :: store where
  "after_reveal = snd (revealRound accept_all ''ABCD'' ''r1'' voting)"

definition after_late_calls :: store where
  "after_late_calls =
     snd (startRound accept_all (Inr ''host'') ''r2'' 9 ''ABCD'' ''AUTH-124''
            (snd (castVote accept_all (Inr ''bo'') 8 ''ABCD'' ''r1'' 13 after_reveal)))"

text \<open>A store in which eight codes are taken, and a random source that makes
  \<^verbatim>\<open>generateRoomCode\<close> walk through exactly these codes.\<close>

definition crowded :: store where
  "crowded =
     \<lparr> rooms =
         map (\<lambda>c. (c, \<lparr> room_code = c, room_createdAt = 1, room_createdBy = ''other'',
                          currentRoundId = None, updatedAt = 1 \<rparr>))
           [''ABCD'', ''EFGH'', ''JKLM'', ''NPQR'', ''STUV'', ''WXYZ'', ''2345'', ''6789''],
       participants = [],
       rounds = [],
       votes = [] \<rparr>"

definition cycle :: "nat \<Rightarrow> rat" where
  "cycle i = of_nat (i mod 32) / 32"

section \<open>Properties\<close>

subsection \<open>Writes\<close>

lemma commit_failed: "commit pol w s = (Inl e, s') \<Longrightarrow> s' = s"
  by (cases w) (auto simp: commit_def split: option.splits)

lemma commit_AddRound:
  "commit pol (AddRound c i d) s = (Inr u, s') \<Longrightarrow>
     map_of (rounds s) (c, i) = None \<and> s' = s\<lparr>rounds := AList.update (c, i) d (rounds s)\<rparr>"
  by (auto simp: commit_def split: option.splits)

lemma commit_UpdateRoom:
  "commit pol (UpdateRoom c r t) s = (Inr u, s') \<Longrightarrow>
     \<exists>d. map_of (rooms s) c = Some d
       \<and> s' = s\<lparr>rooms := AList.update c (d\<lparr>currentRoundId := r, updatedAt := t\<rparr>) (rooms s)\<rparr>"
  by (auto simp: commit_def split: option.splits)

subsection \<open>The loop of \<^verbatim>\<open>createRoom\<close>\<close>

lemma createRoom_loop_unfold:
  "attempt < 10 \<Longrightarrow>
   createRoom_loop pol rnd now uid name attempt s =
     (case createRoom_try pol (generateRoomCode rnd (4 * attempt)) uid
             \<lparr> room_code = generateRoomCode rnd (4 * attempt), room_createdAt = now,
               room_createdBy = uid, currentRoundId = None, updatedAt = now \<rparr>
             \<lparr> participant_uid = Some uid,
               participant_name = Some (or_else (trim name) ''Guest''),
               joinedAt = Some now, lastSeenAt = Some now \<rparr> s of
        (Inr u, s2) \<Rightarrow> (Inr (generateRoomCode rnd (4 * attempt)), s2)
      | (Inl (Error msg), s2) \<Rightarrow>
          if str_includes msg permission_denied \<and> attempt < 9
          then createRoom_loop pol rnd now uid name (attempt + 1) s2
          else (Inl (Error msg), s2))"
  by (subst createRoom_loop.simps) (simp add: Let_def)

lemma createRoom_loop_done:
  "\<not> attempt < 10 \<Longrightarrow>
   createRoom_loop pol rnd now uid name attempt s =
     (Inl (Error ''Failed to create a unique room code. Please try again.''), s)"
  by (subst createRoom_loop.simps) simp

text \<open>What every run of the \<^verbatim>\<open>try\<close> block preserves, the loop preserves.\<close>

lemma createRoom_loop_invariant:
  assumes inv: "\<And>code room participant s r s2.
       P s \<Longrightarrow> createRoom_try pol code uid room participant s = (r, s2) \<Longrightarrow> P s2"
    and "P s"
  shows "P (snd (createRoom_loop pol rnd now uid name attempt s))"
  using \<open>P s\<close>
proof (induction "10 - attempt" arbitrary: attempt s)
  case 0
  then show ?case by (simp add: createRoom_loop_done)
next
  case (Suc n)
  then have lt: "attempt < 10" by simp
  let ?t = "createRoom_try pol (generateRoomCode rnd (4 * attempt)) uid
             \<lparr> room_code = generateRoomCode rnd (4 * attempt), room_createdAt = now,
               room_createdBy = uid, currentRoundId = None, updatedAt = now \<rparr>
             \<lparr> participant_uid = Some uid,
               participant_name = Some (or_else (trim name) ''Guest''),
               joinedAt = Some now, lastSeenAt = Some now \<rparr> s"
  obtain r s2 where t: "?t = (r, s2)" by (cases ?t)
  have p2: "P s2" using inv [OF Suc.prems t] .
  have ih: "P (snd (createRoom_loop pol rnd now uid name (attempt + 1) s2))"
    using Suc.hyps(1) [of "attempt + 1" s2] Suc.hyps(2) p2 by simp
  show ?case
    using p2 ih t by (auto simp: createRoom_loop_unfold [OF lt] split: sum.splits error.splits)
qed



subsection \<open>Room codes\<close>

lemma char_at_chars:
  assumes "0 \<le> (r::rat)" "r < 1"
  shows "\<exists>c \<in> set chars. char_at chars \<lfloor>r * of_nat (length chars)\<rfloor> = [c]"
proof -
  have len: "length chars = 32" by (simp add: chars_def)
  have lo: "0 \<le> \<lfloor>r * 32\<rfloor>" using assms by simp
  have "r * 32 < 32" using assms by simp
  then have hi: "\<lfloor>r * 32\<rfloor> < 32" by (simp add: floor_less_iff)
  from lo hi have "nat \<lfloor>r * 32\<rfloor> < 32" by linarith
  then have "nat \<lfloor>r * 32\<rfloor> < length chars" by (simp only: len)
  then have "chars ! nat \<lfloor>r * 32\<rfloor> \<in> set chars" by (rule nth_mem)
  with lo hi show ?thesis by (auto simp: char_at_def len)
qed

lemma generateRoomCode_loop_shape:
  assumes "\<forall>i. 0 \<le> rnd i \<and> rnd i < 1"
  shows "length (generateRoomCode_loop rnd n i out) = length out + n
       \<and> set (generateRoomCode_loop rnd n i out) \<subseteq> set out \<union> set chars"
proof (induction n arbitrary: i out)
  case 0
  show ?case by simp
next
  case (Suc n)
  from assms obtain c where c: "c \<in> set chars"
      "char_at chars \<lfloor>rnd i * of_nat (length chars)\<rfloor> = [c]"
    using char_at_chars [of "rnd i"] by blast
  show ?case using Suc [of "Suc i" "out @ [c]"] c by auto
qed

text \<open>
  C8. Whenever the random numbers lie in \<open>[0, 1)\<close>, a generated room code has exactly four
  characters, each of them a member of the alphabet \<^verbatim>\<open>ABCDEFGHJKLMNPQRSTUVWXYZ23456789\<close>;
  the alphabet has 32 distinct symbols, all upper-case letters or digits, and contains none
  of \<^verbatim>\<open>0\<close>, \<^verbatim>\<open>O\<close>, \<^verbatim>\<open>1\<close>, \<^verbatim>\<open>I\<close>.
\<close>

theorem generateRoomCode_format:
  assumes "\<forall>i. 0 \<le> rnd i \<and> rnd i < 1"
  shows "length (generateRoomCode rnd k) = 4
       \<and> set (generateRoomCode rnd k) \<subseteq> set ''ABCDEFGHJKLMNPQRSTUVWXYZ23456789''
       \<and> length chars = 32 \<and> distinct chars
       \<and> toUpperCase chars = chars
       \<and> set ''0O1I'' \<inter> set chars = {}"
proof -
  have "length (generateRoomCode rnd k) = 4"
    and "set (generateRoomCode rnd k) \<subseteq> set chars"
    using generateRoomCode_loop_shape [OF assms, of 4 k "''''"]
    by (simp_all add: generateRoomCode_def)
  moreover have "length chars = 32" "distinct chars" "set ''0O1I'' \<inter> set chars = {}"
    by (simp_all add: chars_def)
  moreover have "toUpperCase chars = chars"
    by (simp add: chars_def toUpperCase_def upper_char_def)
  ultimately show ?thesis by (simp add: chars_def)
qed

theorem generateRoomCode_format_witness:
  "(\<forall>i::nat. (0::rat) \<le> 1 / 2 \<and> (1::rat) / 2 < 1)
   \<and> generateRoomCode (\<lambda>i. 1 / 2) 0 = ''SSSS''
   \<and> length (generateRoomCode (\<lambda>i. 1 / 2) 0) = 4
   \<and> set (generateRoomCode (\<lambda>i. 1 / 2) 0) \<subseteq> set ''ABCDEFGHJKLMNPQRSTUVWXYZ23456789''"
proof -
  have h: "\<forall>i::nat. 0 \<le> (\<lambda>i. 1 / 2 :: rat) i \<and> (\<lambda>i. 1 / 2 :: rat) i < 1" by simp
  have e: "generateRoomCode (\<lambda>i. 1 / 2) 0 = ''SSSS''"
    by (simp add: generateRoomCode_def numeral_nat char_at_def chars_def)
  show ?thesis using generateRoomCode_format [OF h, of 0] e by simp
qed

lemmas norm_defs = normalizeRoomCode_def trim_def is_space_def toUpperCase_def upper_char_def

subsection \<open>Failed actions\<close>

lemma revealRound_failed: "revealRound pol code roundId s = (Inl e, s') \<Longrightarrow> s' = s"
  by (auto simp: revealRound_def Let_def dest: commit_failed)

lemma clearCurrentRound_failed: "clearCurrentRound pol now code s = (Inl e, s') \<Longrightarrow> s' = s"
  by (auto simp: clearCurrentRound_def Let_def dest: commit_failed)

lemma castVote_failed: "castVote pol user now code roundId v s = (Inl e, s') \<Longrightarrow> s' = s"
  by (auto simp: castVote_def Let_def split: sum.splits dest: commit_failed)

lemma startRound_failed:
  assumes "startRound pol user newId now code ticket0 s = (Inl e, s')"
  shows "case user of
           Inl x \<Rightarrow> s' = s
         | Inr uid \<Rightarrow>
             (case commit pol
                     (AddRound (normalizeRoomCode code) newId
                        \<lparr> round_createdAt = now, round_createdBy = uid,
                          ticket = trim ticket0, revealed = False \<rparr>) s of
                (Inl e1, s1) \<Rightarrow> s' = s
              | (Inr u, s1) \<Rightarrow>
                  map_of (rounds s) (normalizeRoomCode code, newId) = None
                  \<and> s' = s\<lparr>rounds :=
                       AList.update (normalizeRoomCode code, newId)
                         \<lparr> round_createdAt = now, round_createdBy = uid,
                           ticket = trim ticket0, revealed = False \<rparr> (rounds s)\<rparr>)"
proof (cases user)
  case (Inl a)
  with assms show ?thesis by (simp add: startRound_def)
next
  case (Inr uid)
  let ?c = "normalizeRoomCode code"
  let ?d = "\<lparr> round_createdAt = now, round_createdBy = uid,
             ticket = trim ticket0, revealed = False \<rparr>"
  obtain r1 s1 where c1: "commit pol (AddRound ?c newId ?d) s = (r1, s1)" by fastforce
  show ?thesis
  proof (cases r1)
    case (Inl e1)
    with c1 have "s1 = s" by (auto dest: commit_failed)
    with assms Inr c1 Inl show ?thesis by (simp add: startRound_def Let_def)
  next
    case r1: (Inr u1)
    from commit_AddRound c1 r1 have s1: "map_of (rounds s) (?c, newId) = None"
      "s1 = s\<lparr>rounds := AList.update (?c, newId) ?d (rounds s)\<rparr>" by blast+
    obtain r2 s2 where c2: "commit pol (UpdateRoom ?c (Some newId) now) s1 = (r2, s2)"
      by fastforce
    from assms Inr c1 r1 c2 obtain e2 where "r2 = Inl e2" "s' = s2"
      by (auto simp: startRound_def Let_def split: sum.splits)
    with c2 have "s' = s1" by (auto dest: commit_failed)
    with s1 Inr c1 r1 show ?thesis by simp
  qed
qed

text \<open>
  C5, as stated: a failed \<^verbatim>\<open>startRound\<close> leaves the store as it was. It does not: with a
  backend that takes the new round and then cannot be reached for the update of the room,
  the call fails and the round document stays in the store.
\<close>

theorem startRound_failure_counterexample:
  "startRound room_updates_unavailable (Inr ''host'') ''r1'' 3 ''ABCD'' ''AUTH-123'' lobby =
     (Inl (Error ''unavailable''),
      lobby\<lparr>rounds := [((''ABCD'', ''r1''),
         \<lparr> round_createdAt = 3, round_createdBy = ''host'',
           ticket = ''AUTH-123'', revealed = False \<rparr>)]\<rparr>)
   \<and> lobby\<lparr>rounds := [((''ABCD'', ''r1''),
         \<lparr> round_createdAt = 3, round_createdBy = ''host'',
           ticket = ''AUTH-123'', revealed = False \<rparr>)]\<rparr> \<noteq> lobby"
  by (simp add: startRound_def commit_def room_updates_unavailable_def lobby_def norm_defs)

text \<open>
  C5 (amended). A failed \<^verbatim>\<open>revealRound\<close>, \<^verbatim>\<open>clearCurrentRound\<close> or \<^verbatim>\<open>castVote\<close> leaves the
  store as it was, and so does a \<^verbatim>\<open>startRound\<close> that fails before or at the creation of the
  round. A \<^verbatim>\<open>startRound\<close> that fails at its second write, the update of the room, leaves the
  new round document in the store and changes nothing else.
\<close>

theorem action_failure_state:
  "(revealRound pol code roundId s = (Inl e, s') \<longrightarrow> s' = s)
 \<and> (clearCurrentRound pol now code s = (Inl e, s') \<longrightarrow> s' = s)
 \<and> (castVote pol user now code roundId v s = (Inl e, s') \<longrightarrow> s' = s)
 \<and> (startRound pol user newId now code ticket0 s = (Inl e, s') \<longrightarrow>
      (case user of
         Inl x \<Rightarrow> s' = s
       | Inr uid \<Rightarrow>
           (case commit pol
                   (AddRound (normalizeRoomCode code) newId
                      \<lparr> round_createdAt = now, round_createdBy = uid,
                        ticket = trim ticket0, revealed = False \<rparr>) s of
              (Inl e1, s1) \<Rightarrow> s' = s
            | (Inr u, s1) \<Rightarrow>
                map_of (rounds s) (normalizeRoomCode code, newId) = None
                \<and> s' = s\<lparr>rounds :=
                     AList.update (normalizeRoomCode code, newId)
                       \<lparr> round_createdAt = now, round_createdBy = uid,
                         ticket = trim ticket0, revealed = False \<rparr> (rounds s)\<rparr>)))"
proof (intro conjI impI)
  assume "revealRound pol code roundId s = (Inl e, s')"
  then show "s' = s" by (rule revealRound_failed)
next
  assume "clearCurrentRound pol now code s = (Inl e, s')"
  then show "s' = s" by (rule clearCurrentRound_failed)
next
  assume "castVote pol user now code roundId v s = (Inl e, s')"
  then show "s' = s" by (rule castVote_failed)
next
  assume "startRound pol user newId now code ticket0 s = (Inl e, s')"
  then show "case user of
         Inl x \<Rightarrow> s' = s
       | Inr uid \<Rightarrow>
           (case commit pol
                   (AddRound (normalizeRoomCode code) newId
                      \<lparr> round_createdAt = now, round_createdBy = uid,
                        ticket = trim ticket0, revealed = False \<rparr>) s of
              (Inl e1, s1) \<Rightarrow> s' = s
            | (Inr u, s1) \<Rightarrow>
                map_of (rounds s) (normalizeRoomCode code, newId) = None
                \<and> s' = s\<lparr>rounds :=
                     AList.update (normalizeRoomCode code, newId)
                       \<lparr> round_createdAt = now, round_createdBy = uid,
                         ticket = trim ticket0, revealed = False \<rparr> (rounds s)\<rparr>)"
    by (rule startRound_failed)
qed

theorem action_failure_state_witness:
  "revealRound accept_all ''ABCD'' ''r9'' lobby = (Inl (Error not_found), lobby)
 \<and> clearCurrentRound accept_all 9 ''WXYZ'' lobby = (Inl (Error not_found), lobby)
 \<and> castVote votes_closed_after_reveal (Inr ''bo'') 9 ''ABCD'' ''r1'' 8
      (snd (revealRound accept_all ''ABCD'' ''r1'' voting)) =
      (Inl (Error ''Missing or insufficient permissions.''),
       snd (revealRound accept_all ''ABCD'' ''r1'' voting))
 \<and> startRound accept_all (Inr ''host'') ''r1'' 9 ''ABCD'' ''AUTH-124'' voting =
      (Inl (Error already_exists), voting)
 \<and> snd (startRound room_updates_unavailable (Inr ''host'') ''r1'' 3 ''ABCD'' ''AUTH-123'' lobby) =
      lobby\<lparr>rounds := AList.update (''ABCD'', ''r1'')
         \<lparr> round_createdAt = 3, round_createdBy = ''host'',
           ticket = ''AUTH-123'', revealed = False \<rparr> (rounds lobby)\<rparr>"
proof -
  have a: "revealRound accept_all ''ABCD'' ''r9'' lobby = (Inl (Error not_found), lobby)"
    by (simp add: revealRound_def commit_def accept_all_def lobby_def norm_defs)
  have b: "clearCurrentRound accept_all 9 ''WXYZ'' lobby = (Inl (Error not_found), lobby)"
    by (simp add: clearCurrentRound_def commit_def accept_all_def lobby_def norm_defs)
  have c: "\<exists>s'. castVote votes_closed_after_reveal (Inr ''bo'') 9 ''ABCD'' ''r1'' 8
      (snd (revealRound accept_all ''ABCD'' ''r1'' voting)) =
      (Inl (Error ''Missing or insufficient permissions.''), s')"
    by (simp add: castVote_def revealRound_def commit_def accept_all_def
        votes_closed_after_reveal_def voting_def norm_defs Let_def)
  have d: "\<exists>s'. startRound accept_all (Inr ''host'') ''r1'' 9 ''ABCD'' ''AUTH-124'' voting =
      (Inl (Error already_exists), s')"
    by (simp add: startRound_def commit_def accept_all_def voting_def norm_defs Let_def)
  have e: "\<exists>s'. startRound room_updates_unavailable (Inr ''host'') ''r1'' 3 ''ABCD''
      ''AUTH-123'' lobby = (Inl (Error ''unavailable''), s')"
    by (simp add: startRound_def commit_def room_updates_unavailable_def lobby_def norm_defs)
  have e1: "commit room_updates_unavailable (AddRound (normalizeRoomCode ''ABCD'') ''r1''
       \<lparr> round_createdAt = 3, round_createdBy = ''host'',
         ticket = trim ''AUTH-123'', revealed = False \<rparr>) lobby =
     (Inr (), lobby\<lparr>rounds := [((''ABCD'', ''r1''),
         \<lparr> round_createdAt = 3, round_createdBy = ''host'',
           ticket = ''AUTH-123'', revealed = False \<rparr>)]\<rparr>)"
    by (simp add: commit_def room_updates_unavailable_def lobby_def norm_defs)
  have d1: "fst (commit accept_all (AddRound (normalizeRoomCode ''ABCD'') ''r1''
       \<lparr> round_createdAt = 9, round_createdBy = ''host'',
         ticket = trim ''AUTH-124'', revealed = False \<rparr>) voting) = Inl (Error already_exists)"
    by (simp add: commit_def accept_all_def voting_def norm_defs)
  from c obtain s1 where c': "castVote votes_closed_after_reveal (Inr ''bo'') 9 ''ABCD'' ''r1'' 8
      (snd (revealRound accept_all ''ABCD'' ''r1'' voting)) =
      (Inl (Error ''Missing or insufficient permissions.''), s1)" by blast
  have cs: "s1 = snd (revealRound accept_all ''ABCD'' ''r1'' voting)"
    using action_failure_state [THEN conjunct2, THEN conjunct2, THEN conjunct1] c' by blast
  from d obtain s2 where d': "startRound accept_all (Inr ''host'') ''r1'' 9 ''ABCD'' ''AUTH-124''
      voting = (Inl (Error already_exists), s2)" by blast
  have ds: "s2 = voting"
    using action_failure_state [THEN conjunct2, THEN conjunct2, THEN conjunct2, rule_format, OF d'] d1
    by (auto split: prod.splits sum.splits)
  from e obtain s3 where e': "startRound room_updates_unavailable (Inr ''host'') ''r1'' 3 ''ABCD''
      ''AUTH-123'' lobby = (Inl (Error ''unavailable''), s3)" by blast
  have es: "s3 = lobby\<lparr>rounds := AList.update (''ABCD'', ''r1'')
         \<lparr> round_createdAt = 3, round_createdBy = ''host'',
           ticket = ''AUTH-123'', revealed = False \<rparr> (rounds lobby)\<rparr>"
    using action_failure_state [THEN conjunct2, THEN conjunct2, THEN conjunct2, rule_format, OF e'] e1
    by (simp add: norm_defs)
  show ?thesis using a b c' cs d' ds e' es by simp
qed

subsection \<open>Starting a round\<close>

text \<open>
  C7. \<^verbatim>\<open>startRound\<close> sends the creation of the round first: if that write fails, the call
  fails with its error and nothing is changed. When the call returns an identifier, it is
  the identifier of the new round; the round document was created, under an identifier
  that was free, with \<^verbatim>\<open>revealed\<close> false and the trimmed ticket, giving the store \<open>s1\<close>;
  the room document was then updated in \<open>s1\<close>, which holds the round already, to refer to
  that identifier. The room documents change in no other outcome.
\<close>

theorem startRound_creates_then_references:
  assumes "startRound pol user newId now code0 ticket0 s = (r, s')"
  shows "(\<forall>uid e. user = Inr uid
             \<and> fst (commit pol (AddRound (normalizeRoomCode code0) newId
                     \<lparr> round_createdAt = now, round_createdBy = uid,
                       ticket = trim ticket0, revealed = False \<rparr>) s) = Inl e
             \<longrightarrow> s' = s \<and> r = Inl e)
       \<and> (\<forall>rid. r = Inr rid \<longrightarrow>
             rid = newId
           \<and> (\<exists>uid d s1. user = Inr uid
                \<and> map_of (rounds s) (normalizeRoomCode code0, newId) = None
                \<and> s1 = s\<lparr>rounds := AList.update (normalizeRoomCode code0, newId)
                        \<lparr> round_createdAt = now, round_createdBy = uid,
                          ticket = trim ticket0, revealed = False \<rparr> (rounds s)\<rparr>
                \<and> map_of (rooms s1) (normalizeRoomCode code0) = Some d
                \<and> s' = s1\<lparr>rooms := AList.update (normalizeRoomCode code0)
                        (d\<lparr>currentRoundId := Some newId, updatedAt := now\<rparr>) (rooms s1)\<rparr>
                \<and> map_of (rounds s') (normalizeRoomCode code0, newId) =
                     Some \<lparr> round_createdAt = now, round_createdBy = uid,
                            ticket = trim ticket0, revealed = False \<rparr>
                \<and> map_of (rooms s') (normalizeRoomCode code0) =
                     Some (d\<lparr>currentRoundId := Some newId, updatedAt := now\<rparr>)))
       \<and> (rooms s' \<noteq> rooms s \<longrightarrow> r = Inr newId)"
proof (cases user)
  case (Inl a)
  with assms show ?thesis by (auto simp add: startRound_def)
next
  case (Inr uid)
  let ?c = "normalizeRoomCode code0"
  let ?d = "\<lparr> round_createdAt = now, round_createdBy = uid,
             ticket = trim ticket0, revealed = False \<rparr>"
  obtain r1 s1 where c1: "commit pol (AddRound ?c newId ?d) s = (r1, s1)" by fastforce
  show ?thesis
  proof (cases r1)
    case (Inl e1)
    with c1 have "s1 = s" by (auto dest: commit_failed)
    with assms Inr c1 Inl show ?thesis by (auto simp add: startRound_def Let_def)
  next
    case r1: (Inr u1)
    from commit_AddRound c1 r1 have s1: "map_of (rounds s) (?c, newId) = None"
      "s1 = s\<lparr>rounds := AList.update (?c, newId) ?d (rounds s)\<rparr>" by blast+
    obtain r2 s2 where c2: "commit pol (UpdateRoom ?c (Some newId) now) s1 = (r2, s2)"
      by fastforce
    show ?thesis
    proof (cases r2)
      case (Inl e2)
      with c2 have "s2 = s1" by (auto dest: commit_failed)
      with assms Inr c1 r1 c2 Inl s1 show ?thesis
        by (auto simp: startRound_def Let_def)
    next
      case r2: (Inr u2)
      from commit_UpdateRoom c2 r2 obtain d where d: "map_of (rooms s1) ?c = Some d"
        "s2 = s1\<lparr>rooms := AList.update ?c
           (d\<lparr>currentRoundId := Some newId, updatedAt := now\<rparr>) (rooms s1)\<rparr>"
        by blast
      from assms Inr c1 r1 c2 r2 have res: "r = Inr newId" "s' = s2"
        by (auto simp: startRound_def Let_def)
      have "map_of (rounds s') (?c, newId) = Some ?d" by (simp add: res d s1 update_conv')
      moreover have "map_of (rooms s') ?c =
          Some (d\<lparr>currentRoundId := Some newId, updatedAt := now\<rparr>)"
        by (simp add: res d update_conv')
      ultimately show ?thesis using res d s1 Inr c1 r1 by auto
    qed
  qed
qed

theorem startRound_creates_then_references_witness:
  "startRound accept_all (Inr ''host'') ''r1'' 3 '' abcd'' '' AUTH-123 '' lobby =
     (Inr ''r1'',
      lobby\<lparr>rounds := [((''ABCD'', ''r1''),
                \<lparr> round_createdAt = 3, round_createdBy = ''host'',
                  ticket = ''AUTH-123'', revealed = False \<rparr>)],
            rooms := [(''ABCD'',
                \<lparr> room_code = ''ABCD'', room_createdAt = 1, room_createdBy = ''host'',
                  currentRoundId = Some ''r1'', updatedAt = 3 \<rparr>)]\<rparr>)
   \<and> rooms (snd (startRound accept_all (Inr ''host'') ''r1'' 3 '' abcd'' '' AUTH-123 '' lobby))
       \<noteq> rooms lobby
   \<and> fst (commit accept_all (AddRound (normalizeRoomCode ''ABCD'') ''r1''
              \<lparr> round_createdAt = 9, round_createdBy = ''host'',
                ticket = trim ''AUTH-124'', revealed = False \<rparr>) voting)
       = Inl (Error already_exists)
   \<and> startRound accept_all (Inr ''host'') ''r1'' 9 ''ABCD'' ''AUTH-124'' voting
       = (Inl (Error already_exists), voting)"
proof -
  have a: "startRound accept_all (Inr ''host'') ''r1'' 3 '' abcd'' '' AUTH-123 '' lobby =
     (Inr ''r1'',
      lobby\<lparr>rounds := [((''ABCD'', ''r1''),
                \<lparr> round_createdAt = 3, round_createdBy = ''host'',
                  ticket = ''AUTH-123'', revealed = False \<rparr>)],
            rooms := [(''ABCD'',
                \<lparr> room_code = ''ABCD'', room_createdAt = 1, room_createdBy = ''host'',
                  currentRoundId = Some ''r1'', updatedAt = 3 \<rparr>)]\<rparr>)"
    by (simp add: startRound_def commit_def accept_all_def lobby_def norm_defs Let_def)
  have b: "rooms (snd (startRound accept_all (Inr ''host'') ''r1'' 3 '' abcd'' '' AUTH-123 '' lobby))
       \<noteq> rooms lobby"
    by (simp add: a) (simp add: lobby_def)
  have c: "fst (commit accept_all (AddRound (normalizeRoomCode ''ABCD'') ''r1''
              \<lparr> round_createdAt = 9, round_createdBy = ''host'',
                ticket = trim ''AUTH-124'', revealed = False \<rparr>) voting)
       = Inl (Error already_exists)"
    by (simp add: commit_def accept_all_def voting_def norm_defs)
  obtain r s' where d: "startRound accept_all (Inr ''host'') ''r1'' 9 ''ABCD'' ''AUTH-124'' voting
       = (r, s')" by fastforce
  have "s' = voting \<and> r = Inl (Error already_exists)"
    using startRound_creates_then_references [OF d] c by blast
  with a b c d show ?thesis by simp
qed

subsection \<open>Clearing the current round\<close>

text \<open>
  C9. A \<^verbatim>\<open>clearCurrentRound\<close> that succeeds replaces the room document by itself with
  \<^verbatim>\<open>currentRoundId\<close> set to null and \<^verbatim>\<open>updatedAt\<close> set to the time of the write; no other
  room and no round, vote or participant document is changed. In the view of that room the
  round is then null, the votes map is empty and the list of participants is as before.
\<close>

theorem clearCurrentRound_frame:
  assumes "clearCurrentRound pol now code0 s = (Inr (), s')"
  shows "(\<exists>d. map_of (rooms s) (normalizeRoomCode code0) = Some d
            \<and> rooms s' = AList.update (normalizeRoomCode code0)
                 (d\<lparr>currentRoundId := None, updatedAt := now\<rparr>) (rooms s)
            \<and> map_of (rooms s') = (map_of (rooms s))
                 (normalizeRoomCode code0 \<mapsto> d\<lparr>currentRoundId := None, updatedAt := now\<rparr>))
       \<and> rounds s' = rounds s \<and> votes s' = votes s \<and> participants s' = participants s
       \<and> view_round (room_view s' code0) = None
       \<and> view_votes (room_view s' code0) = []
       \<and> view_participants (room_view s' code0) = view_participants (room_view s code0)"
proof -
  let ?c = "normalizeRoomCode code0"
  from assms have "commit pol (UpdateRoom ?c None now) s = (Inr (), s')"
    by (simp add: clearCurrentRound_def Let_def)
  from commit_UpdateRoom [OF this] obtain d where d: "map_of (rooms s) ?c = Some d"
    and s': "s' = s\<lparr>rooms :=
       AList.update ?c (d\<lparr>currentRoundId := None, updatedAt := now\<rparr>) (rooms s)\<rparr>"
    by blast
  have m: "map_of (rooms s') =
      (map_of (rooms s))(?c \<mapsto> d\<lparr>currentRoundId := None, updatedAt := now\<rparr>)"
    by (simp add: s' update_conv')
  have v: "round_votes_effect s' ?c (if ?c = [] then None else map_of (rooms s') ?c) = (None, [])"
    unfolding m by (simp add: round_votes_effect_def)
  have p: "participants_snapshot s' ?c = participants_snapshot s ?c"
    by (simp add: participants_snapshot_def s')
  have vw: "view_round (room_view s' code0) = None" "view_votes (room_view s' code0) = []"
    by (simp_all only: room_view_def Let_def v view.simps fst_conv snd_conv)
  have vp: "view_participants (room_view s' code0) = view_participants (room_view s code0)"
    by (simp add: room_view_def Let_def p)
  have fr: "rounds s' = rounds s \<and> votes s' = votes s \<and> participants s' = participants s"
    by (simp add: s')
  have rm: "rooms s' =
      AList.update ?c (d\<lparr>currentRoundId := None, updatedAt := now\<rparr>) (rooms s)"
    by (simp add: s')
  from d rm m fr vw vp show ?thesis by blast
qed

theorem clearCurrentRound_frame_witness:
  "clearCurrentRound accept_all 9 ''abcd '' voting =
     (Inr (), voting\<lparr>rooms := [(''ABCD'',
         \<lparr> room_code = ''ABCD'', room_createdAt = 1, room_createdBy = ''host'',
           currentRoundId = None, updatedAt = 9 \<rparr>)]\<rparr>)
   \<and> view_round (room_view voting ''abcd '') =
       Some (''r1'', \<lparr> round_createdAt = 3, round_createdBy = ''host'',
                       ticket = ''AUTH-123'', revealed = False \<rparr>)
   \<and> map (fst) (view_votes (room_view voting ''abcd '')) = [''host'', ''bo'']
   \<and> view_round (room_view (snd (clearCurrentRound accept_all 9 ''abcd '' voting)) ''abcd '') = None
   \<and> view_votes (room_view (snd (clearCurrentRound accept_all 9 ''abcd '' voting)) ''abcd '') = []
   \<and> map participant_name
       (view_participants (room_view (snd (clearCurrentRound accept_all 9 ''abcd '' voting)) ''abcd ''))
       = [Some ''Ann'', Some ''Bo'']
   \<and> rounds (snd (clearCurrentRound accept_all 9 ''abcd '' voting)) = rounds voting
   \<and> votes (snd (clearCurrentRound accept_all 9 ''abcd '' voting)) = votes voting"
proof -
  have a: "clearCurrentRound accept_all 9 ''abcd '' voting =
     (Inr (), voting\<lparr>rooms := [(''ABCD'',
         \<lparr> room_code = ''ABCD'', room_createdAt = 1, room_createdBy = ''host'',
           currentRoundId = None, updatedAt = 9 \<rparr>)]\<rparr>)"
    by (simp add: clearCurrentRound_def commit_def accept_all_def voting_def norm_defs Let_def)
  have b: "room_view voting ''abcd '' =
     \<lparr> view_room = map_of (rooms voting) ''ABCD'',
       view_participants = map snd (participants voting),
       view_round = Some (''r1'', \<lparr> round_createdAt = 3, round_createdBy = ''host'',
                       ticket = ''AUTH-123'', revealed = False \<rparr>),
       view_votes = [(''host'', \<lparr> vote_uid = ''host'', vote_value = 3, vote_createdAt = 4 \<rparr>),
                     (''bo'', \<lparr> vote_uid = ''bo'', vote_value = 5, vote_createdAt = 5 \<rparr>)] \<rparr>"
    by (simp add: room_view_def voting_def norm_defs round_votes_effect_def votes_snapshot_def
        votes_of_round_def participants_snapshot_def Let_def)
  have c: "map participant_name (map snd (participants voting)) = [Some ''Ann'', Some ''Bo'']"
    by (simp add: voting_def)
  show ?thesis using clearCurrentRound_frame [OF a] a b c by simp
qed

subsection \<open>Revealing a round\<close>

text \<open>No write but an update of a round to \<^verbatim>\<open>revealed: false\<close>, which no operation sends,
  does more to an existing round document than set its \<^verbatim>\<open>revealed\<close> field to true.\<close>

lemma commit_round_kept:
  assumes "map_of (rounds s) k = Some d \<or> map_of (rounds s) k = Some (d\<lparr>revealed := True\<rparr>)"
    and "\<And>c i. w \<noteq> UpdateRound c i False"
  shows "map_of (rounds (snd (commit pol w s))) k = Some d
       \<or> map_of (rounds (snd (commit pol w s))) k = Some (d\<lparr>revealed := True\<rparr>)"
proof (cases w)
  case (AddRound c i d')
  with assms show ?thesis
    by (cases "k = (c, i)") (auto simp: commit_def update_conv' split: option.splits)
next
  case (UpdateRound c i b)
  with assms have "b" by (cases b) auto
  with assms UpdateRound show ?thesis
    by (cases "k = (c, i)") (auto simp: commit_def update_conv' split: option.splits)
qed (use assms in \<open>auto simp: commit_def split: option.splits\<close>)

lemma createRoom_try_round_kept:
  assumes "map_of (rounds s) k = Some d \<or> map_of (rounds s) k = Some (d\<lparr>revealed := True\<rparr>)"
    and "createRoom_try pol code uid room participant s = (r, s2)"
  shows "map_of (rounds s2) k = Some d \<or> map_of (rounds s2) k = Some (d\<lparr>revealed := True\<rparr>)"
proof -
  obtain r1 s1 where c1: "commit pol (SetRoom code room) s = (r1, s1)" by fastforce
  have k1: "map_of (rounds s1) k = Some d \<or> map_of (rounds s1) k = Some (d\<lparr>revealed := True\<rparr>)"
    using commit_round_kept [OF assms(1), of "SetRoom code room" pol] c1 by simp
  show ?thesis
  proof (cases r1)
    case (Inl e)
    with assms(2) c1 k1 show ?thesis by (simp add: createRoom_try_def)
  next
    case (Inr u)
    with assms(2) c1 have "commit pol (MergeParticipant code uid participant) s1 = (r, s2)"
      by (simp add: createRoom_try_def)
    with commit_round_kept [OF k1, of "MergeParticipant code uid participant" pol]
    show ?thesis by simp
  qed
qed

lemma step_round_kept:
  assumes "step s s'"
    and k: "map_of (rounds s) k = Some d \<or> map_of (rounds s) k = Some (d\<lparr>revealed := True\<rparr>)"
  shows "map_of (rounds s') k = Some d \<or> map_of (rounds s') k = Some (d\<lparr>revealed := True\<rparr>)"
  using assms(1)
proof cases
  case (createRoom pol user rnd now name)
  show ?thesis
  proof (cases user)
    case (Inl e)
    with createRoom k show ?thesis by (simp add: createRoom_def)
  next
    case (Inr uid)
    have "map_of (rounds (snd (createRoom_loop pol rnd now uid name 0 s))) k = Some d
        \<or> map_of (rounds (snd (createRoom_loop pol rnd now uid name 0 s))) k
            = Some (d\<lparr>revealed := True\<rparr>)"
      by (rule createRoom_loop_invariant
          [where P = "\<lambda>s. map_of (rounds s) k = Some d
                         \<or> map_of (rounds s) k = Some (d\<lparr>revealed := True\<rparr>)"])
        (use k createRoom_try_round_kept in blast)+
    with createRoom Inr show ?thesis by (simp add: createRoom_def)
  qed
next
  case (joinRoom pol user now code name)
  have "\<And>w. snd (case commit pol w s of
                (Inl (Error msg), s1) \<Rightarrow>
                  if str_includes msg permission_denied
                  then (Inl (Error ''Room not found.''), s1) else (Inl (Error msg), s1)
              | (Inr u, s1) \<Rightarrow> (Inr (), s1)) = snd (commit pol w s)"
    by (auto split: prod.splits sum.splits error.splits)
  with joinRoom commit_round_kept [OF k] show ?thesis
    by (cases user) (auto simp: joinRoom_def Let_def k split: sum.splits)
next
  case (touchPresence pol user now code)
  with commit_round_kept [OF k] show ?thesis
    by (cases user) (auto simp: touchPresence_def k)
next
  case (leaveRoom pol user code)
  with commit_round_kept [OF k] show ?thesis
    by (cases user) (auto simp: leaveRoom_def k)
next
  case (startRound pol user newId now code ticket0)
  show ?thesis
  proof (cases user)
    case (Inl e)
    with startRound k show ?thesis by (simp add: startRound_def)
  next
    case (Inr uid)
    let ?w1 = "AddRound (normalizeRoomCode code) newId
                 \<lparr> round_createdAt = now, round_createdBy = uid,
                   ticket = trim ticket0, revealed = False \<rparr>"
    let ?w2 = "UpdateRoom (normalizeRoomCode code) (Some newId) now"
    obtain r1 s1 where c1: "commit pol ?w1 s = (r1, s1)" by fastforce
    have k1: "map_of (rounds s1) k = Some d
            \<or> map_of (rounds s1) k = Some (d\<lparr>revealed := True\<rparr>)"
      using commit_round_kept [OF k, of ?w1 pol] c1 by simp
    have k2: "map_of (rounds (snd (commit pol ?w2 s1))) k = Some d
            \<or> map_of (rounds (snd (commit pol ?w2 s1))) k = Some (d\<lparr>revealed := True\<rparr>)"
      using commit_round_kept [OF k1, of ?w2 pol] by simp
    from startRound Inr c1 k1 k2 show ?thesis
      by (auto simp: startRound_def Let_def split: sum.splits prod.splits)
  qed
next
  case (revealRound pol code roundId)
  with commit_round_kept [OF k, of "UpdateRound (normalizeRoomCode code) roundId True" pol]
  show ?thesis by (simp add: revealRound_def Let_def)
next
  case (clearCurrentRound pol now code)
  with commit_round_kept [OF k, of "UpdateRoom (normalizeRoomCode code) None now" pol]
  show ?thesis by (simp add: clearCurrentRound_def Let_def)
next
  case (castVote pol user now code roundId v)
  with commit_round_kept [OF k] show ?thesis
    by (cases user) (auto simp: castVote_def Let_def k)
qed

text \<open>
  C1. Along every run of the operations, an existing round document is either what it was
  or what it was with \<^verbatim>\<open>revealed\<close> set to true: the round is never deleted, and the only
  change ever made to it is the one of \<^verbatim>\<open>revealRound\<close>. So a round that is revealed stays
  as it is, revealed, whatever is called afterwards.
\<close>

theorem revealed_monotonic:
  assumes "step\<^sup>*\<^sup>* s s'" and "map_of (rounds s) k = Some d"
  shows "(map_of (rounds s') k = Some d \<or> map_of (rounds s') k = Some (d\<lparr>revealed := True\<rparr>))
       \<and> (revealed d \<longrightarrow> map_of (rounds s') k = Some d)"
proof -
  from assms(1)
  have "map_of (rounds s') k = Some d \<or> map_of (rounds s') k = Some (d\<lparr>revealed := True\<rparr>)"
  proof (induction rule: rtranclp_induct)
    case base
    from assms(2) show ?case by simp
  next
    case (step y z)
    from step_round_kept [OF step.hyps(2) step.IH] show ?case .
  qed
  moreover have "revealed d \<Longrightarrow> d\<lparr>revealed := True\<rparr> = d" by simp
  ultimately show ?thesis by auto
qed

theorem revealed_monotonic_witness:
  "step\<^sup>*\<^sup>* after_reveal after_late_calls
   \<and> map_of (rounds after_reveal) (''ABCD'', ''r1'') =
       Some \<lparr> round_createdAt = 3, round_createdBy = ''host'',
              ticket = ''AUTH-123'', revealed = True \<rparr>
   \<and> map_of (rounds after_late_calls) (''ABCD'', ''r1'') =
       Some \<lparr> round_createdAt = 3, round_createdBy = ''host'',
              ticket = ''AUTH-123'', revealed = True \<rparr>
   \<and> map_of (votes after_late_calls) (''ABCD'', ''r1'', ''bo'') =
       Some \<lparr> vote_uid = ''bo'', vote_value = 13, vote_createdAt = 8 \<rparr>
   \<and> map_of (rounds after_late_calls) (''ABCD'', ''r2'') =
       Some \<lparr> round_createdAt = 9, round_createdBy = ''host'',
              ticket = ''AUTH-124'', revealed = False \<rparr>"
proof -
  let ?mid = "snd (castVote accept_all (Inr ''bo'') 8 ''ABCD'' ''r1'' 13 after_reveal)"
  have "step after_reveal ?mid" by (rule step.castVote)
  moreover have "step ?mid after_late_calls"
    unfolding after_late_calls_def by (rule step.startRound)
  ultimately have run: "step\<^sup>*\<^sup>* after_reveal after_late_calls" by simp
  have r: "map_of (rounds after_reveal) (''ABCD'', ''r1'') =
       Some \<lparr> round_createdAt = 3, round_createdBy = ''host'',
              ticket = ''AUTH-123'', revealed = True \<rparr>"
    by (simp add: after_reveal_def revealRound_def commit_def accept_all_def voting_def
        norm_defs Let_def)
  have v: "map_of (votes after_late_calls) (''ABCD'', ''r1'', ''bo'') =
       Some \<lparr> vote_uid = ''bo'', vote_value = 13, vote_createdAt = 8 \<rparr>"
    and n: "map_of (rounds after_late_calls) (''ABCD'', ''r2'') =
       Some \<lparr> round_createdAt = 9, round_createdBy = ''host'',
              ticket = ''AUTH-124'', revealed = False \<rparr>"
    by (simp_all add: after_late_calls_def after_reveal_def startRound_def castVote_def
        revealRound_def commit_def accept_all_def voting_def norm_defs Let_def)
  from revealed_monotonic [OF run r] r v n run show ?thesis by simp
qed

subsection \<open>Votes\<close>

lemma votes_of_round_update:
  "votes_of_round (s\<lparr>votes := AList.update (c, i, u) d (votes s)\<rparr>) c i
     = AList.update u d (votes_of_round s c i)"
proof -
  have "map (\<lambda>((c, i, u), d). (u, d))
          (filter (\<lambda>((c', i', u), d). c' = c \<and> i' = i) (AList.update (c, i, u) d vs))
      = AList.update u d
          (map (\<lambda>((c, i, u), d). (u, d))
             (filter (\<lambda>((c', i', u), d). c' = c \<and> i' = i) vs))" for vs
    by (induction vs) auto
  then show ?thesis by (simp add: votes_of_round_def)
qed

lemma castVote_accepted:
  assumes "pol s (SetVote (normalizeRoomCode code) roundId uid
             \<lparr> vote_uid = uid, vote_value = v, vote_createdAt = now \<rparr>) = None"
  shows "castVote pol (Inr uid) now code roundId v s =
           (Inr (), s\<lparr>votes := AList.update (normalizeRoomCode code, roundId, uid)
                        \<lparr> vote_uid = uid, vote_value = v, vote_createdAt = now \<rparr> (votes s)\<rparr>)"
  using assms by (simp add: castVote_def commit_def Let_def)

lemma castVote_votes:
  "votes (snd (castVote pol user now code roundId v s)) = votes s
   \<or> (\<exists>uid. votes (snd (castVote pol user now code roundId v s)) =
         AList.update (normalizeRoomCode code, roundId, uid)
           \<lparr> vote_uid = uid, vote_value = v, vote_createdAt = now \<rparr> (votes s))"
  by (cases user) (auto simp: castVote_def commit_def Let_def split: option.splits)

lemma castVotes_distinct:
  "distinct (map fst (votes s)) \<Longrightarrow> distinct (map fst (votes (castVotes pol code roundId calls s)))"
proof (induction calls arbitrary: s)
  case Nil
  then show ?case by simp
next
  case (Cons c calls)
  obtain uid now v where c: "c = (uid, now, v)" by (cases c)
  have "distinct (map fst (votes (snd (castVote pol (Inr uid) now code roundId v s))))"
    using castVote_votes [of pol "Inr uid" now code roundId v s] Cons.prems
    by (auto simp: distinct_update)
  from Cons.IH [OF this] show ?case by (simp add: c)
qed

lemma distinct_keys_filter:
  "distinct (map fst xs) \<Longrightarrow> length (filter (\<lambda>(k', d). k' = k) xs) \<le> 1"
  by (induction xs) (auto simp: filter_empty_conv image_iff)

text \<open>The documents that a sequence of accepted votes leaves in the round.\<close>

lemma castVotes_accepted:
  assumes "\<And>st u d. pol st (SetVote (normalizeRoomCode code) roundId u d) = None"
  shows "votes_of_round (castVotes pol code roundId calls s) (normalizeRoomCode code) roundId
       = foldl (\<lambda>m (u, now, v).
                 AList.update u \<lparr> vote_uid = u, vote_value = v, vote_createdAt = now \<rparr> m)
           (votes_of_round s (normalizeRoomCode code) roundId) calls"
proof (induction calls arbitrary: s)
  case Nil
  show ?case by simp
next
  case (Cons c calls)
  obtain uid now v where c: "c = (uid, now, v)" by (cases c)
  show ?case
    by (simp add: c castVote_accepted assms Cons.IH votes_of_round_update)
qed

lemma foldl_update_keys:
  "fst ` set (foldl (\<lambda>m (u, now, v). AList.update u (f u now v) m) m0 calls)
     = fst ` set m0 \<union> fst ` set calls"
proof (induction calls arbitrary: m0)
  case Nil
  show ?case by simp
next
  case (Cons c calls)
  show ?case by (cases c) (simp add: Cons.IH dom_update)
qed

lemma foldl_update_distinct:
  "distinct (map fst m0) \<Longrightarrow>
   distinct (map fst (foldl (\<lambda>m (u, now, v). AList.update u (f u now v) m) m0 calls))"
  by (induction calls arbitrary: m0) (auto simp: distinct_update)

lemma foldl_update_other:
  "u \<notin> fst ` set calls \<Longrightarrow>
   map_of (foldl (\<lambda>m (u, now, v). AList.update u (f u now v) m) m0 calls) u = map_of m0 u"
  by (induction calls arbitrary: m0) (auto simp: update_conv')

lemma foldl_update_last:
  "u \<notin> fst ` set cs2 \<Longrightarrow>
   map_of (foldl (\<lambda>m (u, now, v). AList.update u (f u now v) m) m0 (cs1 @ (u, now, v) # cs2)) u
     = Some (f u now v)"
  by (simp add: foldl_update_other update_conv')

lemma votes_of_round_distinct:
  "distinct (map fst (votes s)) \<Longrightarrow> distinct (map fst (votes_of_round s c i))"
proof -
  have "distinct (map fst vs) \<Longrightarrow>
    distinct (map fst (map (\<lambda>((c, i, u), d). (u, d))
          (filter (\<lambda>((c', i', u), d). c' = c \<and> i' = i) vs)))" for vs
    by (induction vs) (auto simp: image_iff)
  then show "distinct (map fst (votes s)) \<Longrightarrow> distinct (map fst (votes_of_round s c i))"
    by (simp add: votes_of_round_def)
qed

lemma votes_of_round_lookup:
  "distinct (map fst (votes s)) \<Longrightarrow> map_of (votes_of_round s c i) u = map_of (votes s) (c, i, u)"
proof -
  have "distinct (map fst vs) \<Longrightarrow>
    map_of (map (\<lambda>((c, i, u), d). (u, d))
          (filter (\<lambda>((c', i', u), d). c' = c \<and> i' = i) vs)) u = map_of vs (c, i, u)" for vs
    by (induction vs) (auto simp: image_iff)
  then show "distinct (map fst (votes s)) \<Longrightarrow> ?thesis"
    by (simp add: votes_of_round_def)
qed

lemma update_fresh: "k \<notin> fst ` set al \<Longrightarrow> AList.update k v al = al @ [(k, v)]"
  by (induction al) auto

lemma foldl_update_fresh:
  "distinct (map fst (acc @ xs)) \<Longrightarrow>
   foldl (\<lambda>m (i, d). AList.update i d m) acc xs = acc @ xs"
proof (induction xs arbitrary: acc)
  case Nil
  show ?case by simp
next
  case (Cons x xs)
  obtain k v where x: "x = (k, v)" by (cases x)
  from Cons.prems have "k \<notin> fst ` set acc" by (auto simp: x)
  then have u: "AList.update k v acc = acc @ [(k, v)]" by (rule update_fresh)
  from Cons.prems have "distinct (map fst ((acc @ [(k, v)]) @ xs))" by (simp add: x)
  from Cons.IH [OF this] show ?case by (simp add: x u)
qed

lemma votes_snapshot_distinct:
  "distinct (map fst (votes s)) \<Longrightarrow> votes_snapshot s c i = votes_of_round s c i"
  using foldl_update_fresh [of "[]" "votes_of_round s c i"] votes_of_round_distinct [of s c i]
  by (simp add: votes_snapshot_def)

lemma distinct_keys_single:
  "distinct (map fst xs) \<Longrightarrow> map_of xs k = Some d \<Longrightarrow>
   filter (\<lambda>(k', d). k' = k) xs = [(k, d)]"
proof (induction xs)
  case Nil
  then show ?case by simp
next
  case (Cons x xs)
  show ?case
  proof (cases "fst x = k")
    case True
    with Cons.prems have "filter (\<lambda>(k', d). k' = k) xs = []"
      by (auto simp: filter_empty_conv image_iff)
    with True Cons.prems show ?thesis by (cases x) auto
  next
    case False
    with Cons show ?thesis by (cases x) auto
  qed
qed

text \<open>
  C3. In a store that holds no path twice, after any sequence of \<^verbatim>\<open>castVote\<close> calls in a
  round, whatever the backend answers, no path of a vote document occurs twice: there is
  at most one vote document per participant under the round. When the backend accepts the
  votes, the participants with a vote document in the round are those who had one and
  those who called; the number of vote documents, which is the size of the votes map of
  the view, is the number of these participants; and the one vote document of a
  participant who called is the document of that participant's last call.
\<close>

theorem castVote_one_vote_per_participant:
  assumes "distinct (map fst (votes s))"
  shows "(\<forall>uid. length (filter (\<lambda>(k, d). k = (normalizeRoomCode code, roundId, uid))
                    (votes (castVotes pol code roundId calls s))) \<le> 1)
       \<and> ((\<forall>st u d. pol st (SetVote (normalizeRoomCode code) roundId u d) = None) \<longrightarrow>
            fst ` set (votes_of_round (castVotes pol code roundId calls s)
                         (normalizeRoomCode code) roundId)
              = fst ` set (votes_of_round s (normalizeRoomCode code) roundId) \<union> fst ` set calls
          \<and> length (votes_snapshot (castVotes pol code roundId calls s)
                       (normalizeRoomCode code) roundId)
              = card (fst ` set (votes_of_round s (normalizeRoomCode code) roundId)
                      \<union> fst ` set calls)
          \<and> (\<forall>cs1 uid now v cs2.
                calls = cs1 @ (uid, now, v) # cs2 \<and> uid \<notin> fst ` set cs2 \<longrightarrow>
                  filter (\<lambda>(k, d). k = (normalizeRoomCode code, roundId, uid))
                    (votes (castVotes pol code roundId calls s))
                  = [((normalizeRoomCode code, roundId, uid),
                      \<lparr> vote_uid = uid, vote_value = v, vote_createdAt = now \<rparr>)]))"
proof -
  let ?c = "normalizeRoomCode code"
  let ?s' = "castVotes pol code roundId calls s"
  let ?f = "\<lambda>u now v. \<lparr> vote_uid = u, vote_value = v, vote_createdAt = now \<rparr>"
  have d': "distinct (map fst (votes ?s'))" using assms by (rule castVotes_distinct)
  have one: "\<forall>uid. length (filter (\<lambda>(k, d). k = (?c, roundId, uid)) (votes ?s')) \<le> 1"
    using distinct_keys_filter [OF d'] by blast
  have rest: "fst ` set (votes_of_round ?s' ?c roundId)
              = fst ` set (votes_of_round s ?c roundId) \<union> fst ` set calls
          \<and> length (votes_snapshot ?s' ?c roundId)
              = card (fst ` set (votes_of_round s ?c roundId) \<union> fst ` set calls)
          \<and> (\<forall>cs1 uid now v cs2.
                calls = cs1 @ (uid, now, v) # cs2 \<and> uid \<notin> fst ` set cs2 \<longrightarrow>
                  filter (\<lambda>(k, d). k = (?c, roundId, uid)) (votes ?s')
                  = [((?c, roundId, uid), ?f uid now v)])"
    if acc: "\<forall>st u d. pol st (SetVote ?c roundId u d) = None"
  proof -
    have eq: "votes_of_round ?s' ?c roundId
        = foldl (\<lambda>m (u, now, v). AList.update u (?f u now v) m)
            (votes_of_round s ?c roundId) calls"
      using acc by (intro castVotes_accepted) simp
    have keys: "fst ` set (votes_of_round ?s' ?c roundId)
        = fst ` set (votes_of_round s ?c roundId) \<union> fst ` set calls"
      unfolding eq by (rule foldl_update_keys)
    have dr: "distinct (map fst (votes_of_round ?s' ?c roundId))"
      using d' by (rule votes_of_round_distinct)
    have "length (votes_of_round ?s' ?c roundId)
        = card (set (map fst (votes_of_round ?s' ?c roundId)))"
      using distinct_card [OF dr] by simp
    then have len: "length (votes_snapshot ?s' ?c roundId)
        = card (fst ` set (votes_of_round s ?c roundId) \<union> fst ` set calls)"
      using keys by (simp add: votes_snapshot_distinct [OF d'])
    have last: "filter (\<lambda>(k, d). k = (?c, roundId, uid)) (votes ?s')
                  = [((?c, roundId, uid), ?f uid now v)]"
      if "calls = cs1 @ (uid, now, v) # cs2" "uid \<notin> fst ` set cs2" for cs1 uid now v cs2
    proof -
      have "map_of (foldl (\<lambda>m (u, now, v). AList.update u (?f u now v) m)
            (votes_of_round s ?c roundId) calls) uid = Some (?f uid now v)"
        unfolding that(1) using that(2) by (rule foldl_update_last)
      then have "map_of (votes_of_round ?s' ?c roundId) uid = Some (?f uid now v)"
        by (simp only: eq)
      then have "map_of (votes ?s') (?c, roundId, uid) = Some (?f uid now v)"
        by (simp add: votes_of_round_lookup [OF d'])
      with d' show ?thesis by (rule distinct_keys_single)
    qed
    show ?thesis
    proof (intro conjI allI impI)
      show "fst ` set (votes_of_round ?s' ?c roundId)
              = fst ` set (votes_of_round s ?c roundId) \<union> fst ` set calls"
        by (rule keys)
      show "length (votes_snapshot ?s' ?c roundId)
              = card (fst ` set (votes_of_round s ?c roundId) \<union> fst ` set calls)"
        by (rule len)
    next
      fix cs1 uid now v cs2
      assume "calls = cs1 @ (uid, now, v) # cs2 \<and> uid \<notin> fst ` set cs2"
      then have "calls = cs1 @ (uid, now, v) # cs2" and "uid \<notin> fst ` set cs2" by simp_all
      then show "filter (\<lambda>(k, d). k = (?c, roundId, uid)) (votes ?s')
                  = [((?c, roundId, uid), ?f uid now v)]"
        by (rule last)
    qed
  qed
  show ?thesis
  proof (rule conjI)
    show "\<forall>uid. length (filter (\<lambda>(k, d). k = (?c, roundId, uid)) (votes ?s')) \<le> 1"
      by (rule one)
  next
    show "(\<forall>st u d. pol st (SetVote ?c roundId u d) = None) \<longrightarrow>
            fst ` set (votes_of_round ?s' ?c roundId)
              = fst ` set (votes_of_round s ?c roundId) \<union> fst ` set calls
          \<and> length (votes_snapshot ?s' ?c roundId)
              = card (fst ` set (votes_of_round s ?c roundId) \<union> fst ` set calls)
          \<and> (\<forall>cs1 uid now v cs2.
                calls = cs1 @ (uid, now, v) # cs2 \<and> uid \<notin> fst ` set cs2 \<longrightarrow>
                  filter (\<lambda>(k, d). k = (?c, roundId, uid)) (votes ?s')
                  = [((?c, roundId, uid), ?f uid now v)])"
      using rest by (rule impI)
  qed
qed

theorem castVote_one_vote_per_participant_witness:
  "distinct (map fst (votes lobby))
   \<and> (\<forall>st u d. accept_all st (SetVote (normalizeRoomCode ''ABCD'') ''r1'' u d) = None)
   \<and> votes (castVotes accept_all ''ABCD'' ''r1''
              [(''host'', 4, 3), (''bo'', 5, 5), (''host'', 6, 8)] lobby)
       = [((''ABCD'', ''r1'', ''host''),
             \<lparr> vote_uid = ''host'', vote_value = 8, vote_createdAt = 6 \<rparr>),
          ((''ABCD'', ''r1'', ''bo''),
             \<lparr> vote_uid = ''bo'', vote_value = 5, vote_createdAt = 5 \<rparr>)]
   \<and> length (votes_snapshot (castVotes accept_all ''ABCD'' ''r1''
              [(''host'', 4, 3), (''bo'', 5, 5), (''host'', 6, 8)] lobby) ''ABCD'' ''r1'') = 2
   \<and> filter (\<lambda>(k, d). k = (''ABCD'', ''r1'', ''host''))
        (votes (castVotes accept_all ''ABCD'' ''r1''
              [(''host'', 4, 3), (''bo'', 5, 5), (''host'', 6, 8)] lobby))
       = [((''ABCD'', ''r1'', ''host''),
             \<lparr> vote_uid = ''host'', vote_value = 8, vote_createdAt = 6 \<rparr>)]"
proof -
  let ?calls = "[(''host'', 4::nat, 3::rat), (''bo'', 5, 5), (''host'', 6, 8)]"
  have n: "normalizeRoomCode ''ABCD'' = ''ABCD''" by (simp add: norm_defs)
  have h1: "distinct (map fst (votes lobby))" by (simp add: lobby_def)
  have h2: "\<forall>st u d. accept_all st (SetVote (normalizeRoomCode ''ABCD'') ''r1'' u d) = None"
    by (simp add: accept_all_def)
  have h3: "?calls = [(''host'', 4, 3), (''bo'', 5, 5)] @ (''host'', 6, 8) # []
      \<and> ''host'' \<notin> fst ` set []" by simp
  have v0: "votes_of_round lobby ''ABCD'' ''r1'' = []" by (simp add: votes_of_round_def lobby_def)
  have e: "votes (castVotes accept_all ''ABCD'' ''r1'' ?calls lobby)
       = [((''ABCD'', ''r1'', ''host''),
             \<lparr> vote_uid = ''host'', vote_value = 8, vote_createdAt = 6 \<rparr>),
          ((''ABCD'', ''r1'', ''bo''),
             \<lparr> vote_uid = ''bo'', vote_value = 5, vote_createdAt = 5 \<rparr>)]"
    by (simp add: castVote_def commit_def accept_all_def lobby_def norm_defs Let_def)
  have c: "card (fst ` set (votes_of_round lobby ''ABCD'' ''r1'') \<union> fst ` set ?calls) = 2"
    by (simp add: v0 card_insert_if)
  note t = castVote_one_vote_per_participant [OF h1, of "''ABCD''" "''r1''" accept_all ?calls,
      unfolded n, THEN conjunct2, THEN mp, OF h2 [unfolded n]]
  from t [THEN conjunct2, THEN conjunct1] c
  have l: "length (votes_snapshot (castVotes accept_all ''ABCD'' ''r1'' ?calls lobby)
      ''ABCD'' ''r1'') = 2" by simp
  have f: "filter (\<lambda>(k, d). k = (''ABCD'', ''r1'', ''host''))
        (votes (castVotes accept_all ''ABCD'' ''r1'' ?calls lobby))
       = [((''ABCD'', ''r1'', ''host''),
             \<lparr> vote_uid = ''host'', vote_value = 8, vote_createdAt = 6 \<rparr>)]"
    by (rule t [THEN conjunct2, THEN conjunct2, rule_format, OF h3])
  from h1 h2 e l f show ?thesis by (intro conjI)
qed

subsection \<open>Numbers\<close>

lemma floor_rat_numeral: "\<lfloor>(numeral a :: rat) / numeral b\<rfloor> = numeral a div numeral b"
  using floor_divide_of_int_eq [of "numeral a" "numeral b", where ?'a = rat] by simp

lemmas fl_eval = fl_def round_pos_def exponent_def log2_up.simps log2_down.simps pow2_def
  round_half_even_def Let_def floor_rat_numeral

lemma pow2_pos: "0 < pow2 e"
  by (simp add: pow2_def)

lemma pow2_Suc: "pow2 (e + 1) = 2 * pow2 e"
  by (simp add: pow2_def power_int_add)

lemma pow2_mono: "a \<le> b \<Longrightarrow> pow2 a \<le> pow2 b"
  unfolding pow2_def by (rule power_int_increasing) simp_all

lemma pow2_strict_mono: "a < b \<Longrightarrow> pow2 a < pow2 b"
  unfolding pow2_def by (rule power_int_strict_increasing) simp_all

lemma pow2_le_iff: "pow2 a \<le> pow2 b \<longleftrightarrow> a \<le> b"
  using pow2_mono [of a b] pow2_strict_mono [of b a] by (auto simp: not_le [symmetric])

lemma pow2_less_iff: "pow2 a < pow2 b \<longleftrightarrow> a < b"
  using pow2_mono [of b a] pow2_strict_mono [of a b] by (auto simp: not_less [symmetric])

lemma log2_up_bounds:
  "1 \<le> x \<Longrightarrow> pow2 (log2_up x k - k) \<le> x \<and> x < pow2 (log2_up x k - k + 1)"
proof (induction x k rule: log2_up.induct)
  case (1 x k)
  show ?case
  proof (cases "x < 2")
    case True
    with "1.prems" show ?thesis by (simp add: log2_up.simps [of x k] pow2_def)
  next
    case False
    then have "1 \<le> x / 2" by simp
    from "1.IH" [OF False this]
    have "pow2 (log2_up (x / 2) (k + 1) - (k + 1)) \<le> x / 2"
      and "x / 2 < pow2 (log2_up (x / 2) (k + 1) - (k + 1) + 1)" by simp_all
    moreover have "log2_up x k = log2_up (x / 2) (k + 1)"
      using False by (simp add: log2_up.simps [of x k])
    moreover have "pow2 (log2_up (x / 2) (k + 1) - k)
        = 2 * pow2 (log2_up (x / 2) (k + 1) - (k + 1))"
      using pow2_Suc [of "log2_up (x / 2) (k + 1) - (k + 1)"] by simp
    moreover have "pow2 (log2_up (x / 2) (k + 1) - k + 1)
        = 2 * pow2 (log2_up (x / 2) (k + 1) - (k + 1) + 1)"
      using pow2_Suc [of "log2_up (x / 2) (k + 1) - (k + 1) + 1"] by (simp add: algebra_simps)
    ultimately show ?thesis by simp
  qed
qed

lemma log2_down_bounds:
  "0 < x \<Longrightarrow> x < 2 \<Longrightarrow>
   pow2 (log2_down x k - k) \<le> x \<and> x < pow2 (log2_down x k - k + 1)"
proof (induction x k rule: log2_down.induct)
  case (1 x k)
  show ?case
  proof (cases "1 \<le> x")
    case True
    with "1.prems" show ?thesis by (simp add: log2_down.simps [of x k] pow2_def)
  next
    case False
    with "1.prems" have c: "\<not> (x \<le> 0 \<or> 1 \<le> x)" and p: "0 < 2 * x" "2 * x < 2" by simp_all
    from "1.IH" [OF c p]
    have "pow2 (log2_down (2 * x) (k - 1) - (k - 1)) \<le> 2 * x"
      and "2 * x < pow2 (log2_down (2 * x) (k - 1) - (k - 1) + 1)" by simp_all
    moreover have "log2_down x k = log2_down (2 * x) (k - 1)"
      using c by (simp add: log2_down.simps [of x k])
    moreover have "pow2 (log2_down (2 * x) (k - 1) - (k - 1))
        = 2 * pow2 (log2_down (2 * x) (k - 1) - k)"
      using pow2_Suc [of "log2_down (2 * x) (k - 1) - k"] by (simp add: algebra_simps)
    moreover have "pow2 (log2_down (2 * x) (k - 1) - (k - 1) + 1)
        = 2 * pow2 (log2_down (2 * x) (k - 1) - k + 1)"
      using pow2_Suc [of "log2_down (2 * x) (k - 1) - k + 1"] by (simp add: algebra_simps)
    ultimately show ?thesis by simp
  qed
qed

lemma exponent_bounds:
  assumes "0 < x"
  shows "pow2 (exponent x) \<le> x" and "x < pow2 (exponent x + 1)"
proof -
  have "pow2 (exponent x) \<le> x \<and> x < pow2 (exponent x + 1)"
  proof (cases "1 \<le> x")
    case True
    with log2_up_bounds [OF True, of 0] show ?thesis by (simp add: exponent_def)
  next
    case False
    with assms log2_down_bounds [of x 0] show ?thesis by (simp add: exponent_def)
  qed
  then show "pow2 (exponent x) \<le> x" and "x < pow2 (exponent x + 1)" by simp_all
qed

lemma round_half_even_int: "round_half_even (of_int j) = j"
  by (simp add: round_half_even_def)

lemma round_half_even_near: "\<bar>of_int (round_half_even m) - m\<bar> \<le> 1 / 2"
proof -
  have "of_int \<lfloor>m\<rfloor> \<le> m" "m < of_int \<lfloor>m\<rfloor> + 1" by linarith+
  then show ?thesis by (auto simp: round_half_even_def Let_def abs_le_iff)
qed

text \<open>Rounding is exact on the integers up to \<open>2^53\<close>.\<close>

lemma round_pos_nat:
  assumes "0 < k" "k \<le> 2 ^ 53"
  shows "round_pos (of_nat k) = of_nat k"
proof -
  let ?x = "of_nat k :: rat"
  let ?e = "exponent ?x"
  from assms have x: "0 < ?x" "1 \<le> ?x" by simp_all
  have "?x \<le> 2 ^ 53" using assms(2) by (metis of_nat_le_iff of_nat_numeral of_nat_power)
  then have x53: "?x \<le> pow2 53" by (simp add: pow2_def)
  from exponent_bounds [OF x(1)] have lo: "pow2 ?e \<le> ?x" and hi: "?x < pow2 (?e + 1)" .
  from x(2) hi have "pow2 0 < pow2 (?e + 1)" by (simp add: pow2_def)
  then have e0: "0 \<le> ?e" by (simp add: pow2_less_iff)
  from lo x53 have "pow2 ?e \<le> pow2 53" by simp
  then have e53: "?e \<le> 53" by (simp add: pow2_le_iff)
  from e0 have q: "max ?e (- 1022) - 52 = ?e - 52" by simp
  have "\<exists>j. ?x / pow2 (?e - 52) = of_int j"
  proof (cases "?e = 53")
    case True
    with lo x53 have "?x = pow2 53" by simp
    with True have "?x / pow2 (?e - 52) = of_int (2 ^ 52)" by (simp add: pow2_def)
    then show ?thesis ..
  next
    case False
    with e53 have "0 \<le> 52 - ?e" by simp
    then have "pow2 (52 - ?e) = 2 ^ nat (52 - ?e)" by (simp add: pow2_def power_int_nonneg_exp)
    moreover have "pow2 (?e - 52) * pow2 (52 - ?e) = 1"
      by (simp add: pow2_def flip: power_int_add)
    ultimately have "?x / pow2 (?e - 52) = ?x * 2 ^ nat (52 - ?e)"
      using pow2_pos [of "?e - 52"] by (simp add: field_simps)
    also have "\<dots> = of_int (int k * 2 ^ nat (52 - ?e))" by simp
    finally show ?thesis ..
  qed
  then obtain j where j: "?x / pow2 (?e - 52) = of_int j" ..
  then have "of_int j * pow2 (?e - 52) = ?x"
    using pow2_pos [of "?e - 52"] by (simp add: field_simps)
  then show ?thesis by (simp add: round_pos_def Let_def q j round_half_even_int)
qed

lemma fl_nat:
  assumes "k \<le> 2 ^ 53"
  shows "fl (of_nat k) = Num (of_nat k)"
proof (cases "k = 0")
  case True
  then show ?thesis by (simp add: fl_def)
next
  case False
  then have k: "0 < k" by simp
  have "(of_nat k :: rat) \<le> 2 ^ 53"
    using assms by (metis of_nat_le_iff of_nat_numeral of_nat_power)
  also have "\<dots> < pow2 1024" using pow2_strict_mono [of 53 1024] by (simp add: pow2_def)
  finally have "\<not> pow2 1024 \<le> (of_nat k :: rat)" by simp
  with k show ?thesis by (simp add: fl_def round_pos_nat [OF k assms] Let_def)
qed

text \<open>From \<open>2^-1022\<close> on, rounding changes a number by at most the fraction \<open>2^-53\<close> of it.\<close>

lemma fl_error:
  assumes "pow2 (- 1022) \<le> x" "x \<le> 2 ^ 53"
  shows "\<exists>y. fl x = Num y \<and> \<bar>y - x\<bar> \<le> x / 2 ^ 53"
proof -
  let ?e = "exponent x"
  let ?q = "?e - 52"
  let ?m = "x / pow2 ?q"
  let ?y = "of_int (round_half_even ?m) * pow2 ?q"
  from assms(1) have x: "0 < x" using pow2_pos [of "- 1022"] by simp
  from exponent_bounds [OF x] have lo: "pow2 ?e \<le> x" and hi: "x < pow2 (?e + 1)" .
  from assms(1) hi have "pow2 (- 1022) < pow2 (?e + 1)" by simp
  then have "- 1022 \<le> ?e" by (simp add: pow2_less_iff)
  then have q: "max ?e (- 1022) - 52 = ?q" by simp
  have y: "round_pos x = ?y" by (simp add: round_pos_def Let_def q)
  have "?y - x = (of_int (round_half_even ?m) - ?m) * pow2 ?q"
    using pow2_pos [of ?q] by (simp add: field_simps)
  then have "\<bar>?y - x\<bar> = \<bar>of_int (round_half_even ?m) - ?m\<bar> * pow2 ?q"
    using pow2_pos [of ?q] by (simp add: abs_mult)
  also have "\<dots> \<le> 1 / 2 * pow2 ?q"
    using round_half_even_near [of ?m] pow2_pos [of ?q] by (intro mult_right_mono) simp_all
  also have "1 / 2 * pow2 ?q = pow2 ?e / 2 ^ 53"
  proof -
    have "(2 :: rat) powi (?q + 52) = 2 powi ?q * 2 powi 52" by (rule power_int_add) simp
    then have "pow2 ?e = pow2 ?q * 2 ^ 52" by (simp add: pow2_def)
    then show ?thesis by simp
  qed
  also have "\<dots> \<le> x / 2 ^ 53" using lo by (simp add: divide_right_mono)
  finally have err: "\<bar>?y - x\<bar> \<le> x / 2 ^ 53" .
  then have "?y \<le> x + x / 2 ^ 53" by linarith
  also have "\<dots> \<le> 2 * x" using x by simp
  also have "\<dots> \<le> 2 * 2 ^ 53" using assms(2) by simp
  also have "\<dots> < pow2 1024" using pow2_strict_mono [of 54 1024] by (simp add: pow2_def)
  finally have "\<not> pow2 1024 \<le> ?y" by simp
  with x y err show ?thesis by (simp add: fl_def Let_def)
qed

subsection \<open>The summary of a round\<close>

text \<open>Natural numbers add up exactly as long as the sum is at most \<open>2^53\<close>.\<close>

lemma foldl_js_add_nat:
  "a + sum_list ks \<le> 2 ^ 53 \<Longrightarrow>
   foldl (\<lambda>a b. js_add a b) (Num (of_nat a)) (map (\<lambda>k. Num (of_nat k)) ks)
     = Num (of_nat (a + sum_list ks))"
proof (induction ks arbitrary: a)
  case Nil
  show ?case by simp
next
  case (Cons k ks)
  from Cons.prems have "a + k \<le> 2 ^ 53" and "(a + k) + sum_list ks \<le> 2 ^ 53" by simp_all
  then have "js_add (Num (of_nat a)) (Num (of_nat k)) = Num (of_nat (a + k))"
    using fl_nat [of "a + k"] by simp
  with Cons.IH [OF \<open>(a + k) + sum_list ks \<le> 2 ^ 53\<close>] show ?case by (simp add: add.assoc)
qed

lemma summary_revealed:
  "summary True vs =
     Some \<lparr> avg = (if vs = [] then None
                   else Some (js_div_length
                     (foldl (\<lambda>a b. js_add a b) (Num 0) (map (\<lambda>(u, d). Num (vote_value d)) vs))
                     (length vs))),
            count = length vs \<rparr>"
proof -
  have "(\<lambda>(u :: string, d :: VoteDoc). Num (vote_value d)) = (\<lambda>x. Num (vote_value (snd x)))"
    by auto
  then show ?thesis by (simp add: summary_def Let_def comp_def)
qed

lemma summary_nat:
  assumes "map (\<lambda>(u, d). vote_value d) vs = map of_nat ks" and "sum_list ks \<le> 2 ^ 53"
  shows "summary True vs =
     Some \<lparr> avg = (if ks = [] then None
                   else Some (fl (of_nat (sum_list ks) / of_nat (length ks)))),
            count = length ks \<rparr>"
proof -
  from assms(1) have len: "length vs = length ks" by (metis length_map)
  have "map (\<lambda>(u, d). Num (vote_value d)) vs
      = map Num (map (\<lambda>(u, d). vote_value d) vs)"
    by (simp add: comp_def case_prod_beta)
  also have "\<dots> = map (\<lambda>k. Num (of_nat k)) ks" by (simp add: assms(1) comp_def)
  finally have vals: "map (\<lambda>(u, d). Num (vote_value d)) vs = map (\<lambda>k. Num (of_nat k)) ks" .
  have sum: "foldl (\<lambda>a b. js_add a b) (Num 0) (map (\<lambda>k. Num (of_nat k)) ks)
      = Num (of_nat (sum_list ks))"
    using foldl_js_add_nat [of 0 ks] assms(2) by simp
  show ?thesis
    using len by (auto simp: summary_revealed vals sum js_div_length_def)
qed

text \<open>
  C2, as stated: the average is the exact rational sum/count. It is not: for the votes 1,
  1 and 2 the summary holds the binary64 number next to 4/3, which is not 4/3.
\<close>

theorem summary_average_counterexample:
  "summary True
     [(''ann'', \<lparr> vote_uid = ''ann'', vote_value = 1, vote_createdAt = 4 \<rparr>),
      (''bo'', \<lparr> vote_uid = ''bo'', vote_value = 1, vote_createdAt = 5 \<rparr>),
      (''cy'', \<lparr> vote_uid = ''cy'', vote_value = 2, vote_createdAt = 6 \<rparr>)] =
     Some \<lparr> avg = Some (Num (6004799503160661 / 4503599627370496)), count = 3 \<rparr>
   \<and> (6004799503160661 / 4503599627370496 :: rat) \<noteq> (1 + 1 + 2) / 3"
  by (simp add: summary_def js_div_length_def fl_eval)

text \<open>
  C2 (amended). For a revealed round the summary counts every entry of the votes map, a
  vote of value 0 as any other, and its average is the sum of the values divided by their
  number, both computed in binary64 as the language does; for an empty votes map the
  average is absent and the count is 0. When the values are natural numbers with a sum of
  at most \<open>2^53\<close>, as all card values are, and there are fewer than \<open>2^32\<close> of them, the
  average is the exact rational sum/count rounded to binary64: it is that rational when
  the count divides the sum, and differs from it by at most the fraction \<open>2^-53\<close> of it in
  any case. The participants list has no part in the summary: with votes 3 and 5 and a
  third participant who never voted, the count is 2 and the average 4. Votes 1, 2 and 3
  average 2.
\<close>

theorem summary_average:
  "summary True vs =
     Some \<lparr> avg = (if vs = [] then None
                   else Some (js_div_length
                     (foldl (\<lambda>a b. js_add a b) (Num 0) (map (\<lambda>(u, d). Num (vote_value d)) vs))
                     (length vs))),
            count = length vs \<rparr>
   \<and> summary True [] = Some \<lparr> avg = None, count = 0 \<rparr>
   \<and> (map (\<lambda>(u, d). vote_value d) vs = map of_nat ks
        \<and> sum_list ks \<le> 2 ^ 53 \<and> length ks < 2 ^ 32 \<longrightarrow>
        summary True vs =
          Some \<lparr> avg = (if ks = [] then None
                        else Some (fl (of_nat (sum_list ks) / of_nat (length ks)))),
                 count = length ks \<rparr>
        \<and> (ks \<noteq> [] \<and> length ks dvd sum_list ks \<longrightarrow>
             summary True vs =
               Some \<lparr> avg = Some (Num (of_nat (sum_list ks div length ks))),
                      count = length ks \<rparr>)
        \<and> (ks \<noteq> [] \<longrightarrow>
             (\<exists>y. summary True vs = Some \<lparr> avg = Some (Num y), count = length ks \<rparr>
                \<and> \<bar>y - of_nat (sum_list ks) / of_nat (length ks)\<bar>
                    \<le> of_nat (sum_list ks) / of_nat (length ks) / 2 ^ 53)))
   \<and> view_summary (v\<lparr>view_participants := ps\<rparr>) = view_summary v
   \<and> summary True
        [(a, \<lparr> vote_uid = a, vote_value = 1, vote_createdAt = t1 \<rparr>),
         (b, \<lparr> vote_uid = b, vote_value = 2, vote_createdAt = t2 \<rparr>),
         (c, \<lparr> vote_uid = c, vote_value = 3, vote_createdAt = t3 \<rparr>)] =
       Some \<lparr> avg = Some (Num 2), count = 3 \<rparr>
   \<and> summary True
        [(a, \<lparr> vote_uid = a, vote_value = 3, vote_createdAt = t1 \<rparr>),
         (b, \<lparr> vote_uid = b, vote_value = 5, vote_createdAt = t2 \<rparr>)] =
       Some \<lparr> avg = Some (Num 4), count = 2 \<rparr>
   \<and> length (view_participants
        (room_view (snd (joinRoom accept_all (Inr ''cy'') 7 ''ABCD'' ''Cy'' after_reveal)) ''ABCD'')) = 3
   \<and> view_summary
        (room_view (snd (joinRoom accept_all (Inr ''cy'') 7 ''ABCD'' ''Cy'' after_reveal)) ''ABCD'') =
       Some \<lparr> avg = Some (Num 4), count = 2 \<rparr>"
proof -
  let ?S = "of_nat (sum_list ks) :: rat"
  let ?n = "of_nat (length ks) :: rat"
  have nat: "summary True vs =
          Some \<lparr> avg = (if ks = [] then None else Some (fl (?S / ?n))), count = length ks \<rparr>
        \<and> (ks \<noteq> [] \<and> length ks dvd sum_list ks \<longrightarrow>
             summary True vs =
               Some \<lparr> avg = Some (Num (of_nat (sum_list ks div length ks))),
                      count = length ks \<rparr>)
        \<and> (ks \<noteq> [] \<longrightarrow>
             (\<exists>y. summary True vs = Some \<lparr> avg = Some (Num y), count = length ks \<rparr>
                \<and> \<bar>y - ?S / ?n\<bar> \<le> ?S / ?n / 2 ^ 53))"
    if h: "map (\<lambda>(u, d). vote_value d) vs = map of_nat ks
        \<and> sum_list ks \<le> 2 ^ 53 \<and> length ks < 2 ^ 32"
  proof -
    from h have vals: "map (\<lambda>(u, d). vote_value d) vs = map of_nat ks"
      and le: "sum_list ks \<le> 2 ^ 53" and n32: "length ks < 2 ^ 32" by simp_all
    note s = summary_nat [OF vals le]
    have S53: "?S \<le> 2 ^ 53" using le by (metis of_nat_le_iff of_nat_numeral of_nat_power)
    have exact: "fl (?S / ?n) = Num (of_nat (sum_list ks div length ks))"
      if "ks \<noteq> []" "length ks dvd sum_list ks"
    proof -
      from that(2) obtain m where m: "sum_list ks = length ks * m" ..
      from that(1) have n0: "length ks \<noteq> 0" by simp
      from n0 have "?S / ?n = of_nat (sum_list ks div length ks)"
        by (simp add: m)
      moreover have "sum_list ks div length ks \<le> 2 ^ 53"
        using le by (meson div_le_dividend order_trans)
      ultimately show ?thesis by (simp add: fl_nat)
    qed
    have near: "\<exists>y. fl (?S / ?n) = Num y \<and> \<bar>y - ?S / ?n\<bar> \<le> ?S / ?n / 2 ^ 53"
      if ne: "ks \<noteq> []"
    proof (cases "sum_list ks = 0")
      case True
      have z: "?S / ?n = 0" unfolding True by simp
      show ?thesis unfolding z by (simp add: fl_def)
    next
      case False
      from ne have n1: "1 \<le> ?n" by (cases ks) simp_all
      have "?n \<le> 2 ^ 32" using n32 by (metis less_imp_le of_nat_le_iff of_nat_numeral of_nat_power)
      also have "(2 :: rat) ^ 32 \<le> 1 / pow2 (- 1022)"
        using pow2_mono [of 32 1022] by (simp add: pow2_def power_int_minus_divide)
      finally have "?n * pow2 (- 1022) \<le> 1"
        using pow2_pos [of "- 1022"] by (simp add: field_simps)
      moreover from n1 have "0 < ?n" by linarith
      ultimately have "pow2 (- 1022) \<le> 1 / ?n"
        by (simp only: pos_le_divide_eq mult.commute)
      also have "1 / ?n \<le> ?S / ?n"
      proof (rule divide_right_mono)
        from False have "1 \<le> sum_list ks" by linarith
        then show "1 \<le> ?S" by (metis of_nat_1 of_nat_le_iff)
        show "0 \<le> ?n" by (rule of_nat_0_le_iff)
      qed
      finally have lo: "pow2 (- 1022) \<le> ?S / ?n" .
      have "?S / ?n \<le> ?S / 1"
        using n1 ne by (intro divide_left_mono) simp_all
      then have "?S / ?n \<le> ?S" by simp
      with S53 have hi: "?S / ?n \<le> 2 ^ 53" by simp
      from fl_error [OF lo hi] show ?thesis .
    qed
    from s exact near show ?thesis by auto
  qed
  have p: "view_summary (v\<lparr>view_participants := ps\<rparr>) = view_summary v"
    by (simp add: view_summary_def view_revealed_def)
  have e1: "summary True
        [(a, \<lparr> vote_uid = a, vote_value = 1, vote_createdAt = t1 \<rparr>),
         (b, \<lparr> vote_uid = b, vote_value = 2, vote_createdAt = t2 \<rparr>),
         (c, \<lparr> vote_uid = c, vote_value = 3, vote_createdAt = t3 \<rparr>)] =
       Some \<lparr> avg = Some (Num 2), count = 3 \<rparr>"
    by (simp add: summary_def js_div_length_def fl_eval)
  have e2: "summary True
        [(a, \<lparr> vote_uid = a, vote_value = 3, vote_createdAt = t1 \<rparr>),
         (b, \<lparr> vote_uid = b, vote_value = 5, vote_createdAt = t2 \<rparr>)] =
       Some \<lparr> avg = Some (Num 4), count = 2 \<rparr>"
    by (simp add: summary_def js_div_length_def fl_eval)
  have s: "room_view (snd (joinRoom accept_all (Inr ''cy'') 7 ''ABCD'' ''Cy'' after_reveal)) ''ABCD''
     = \<lparr> view_room = Some \<lparr> room_code = ''ABCD'', room_createdAt = 1, room_createdBy = ''host'',
                      currentRoundId = Some ''r1'', updatedAt = 3 \<rparr>,
         view_participants =
           [\<lparr> participant_uid = Some ''host'', participant_name = Some ''Ann'',
               joinedAt = Some 1, lastSeenAt = Some 1 \<rparr>,
            \<lparr> participant_uid = Some ''bo'', participant_name = Some ''Bo'',
               joinedAt = Some 2, lastSeenAt = Some 2 \<rparr>,
            \<lparr> participant_uid = Some ''cy'', participant_name = Some ''Cy'',
               joinedAt = Some 7, lastSeenAt = Some 7 \<rparr>],
         view_round = Some (''r1'', \<lparr> round_createdAt = 3, round_createdBy = ''host'',
                       ticket = ''AUTH-123'', revealed = True \<rparr>),
         view_votes = [(''host'', \<lparr> vote_uid = ''host'', vote_value = 3, vote_createdAt = 4 \<rparr>),
                     (''bo'', \<lparr> vote_uid = ''bo'', vote_value = 5, vote_createdAt = 5 \<rparr>)] \<rparr>"
    by (simp add: room_view_def joinRoom_def doc_def path_segments_def after_reveal_def
        revealRound_def commit_def
        accept_all_def voting_def norm_defs round_votes_effect_def votes_snapshot_def
        votes_of_round_def participants_snapshot_def or_else_def Let_def)
  have e3: "length (view_participants
        (room_view (snd (joinRoom accept_all (Inr ''cy'') 7 ''ABCD'' ''Cy'' after_reveal)) ''ABCD'')) = 3"
    by (simp add: s)
  have e4: "view_summary
        (room_view (snd (joinRoom accept_all (Inr ''cy'') 7 ''ABCD'' ''Cy'' after_reveal)) ''ABCD'') =
       Some \<lparr> avg = Some (Num 4), count = 2 \<rparr>"
    by (simp add: s view_summary_def view_revealed_def summary_def js_div_length_def fl_eval)
  show ?thesis
  proof (intro conjI)
    show "summary True vs =
       Some \<lparr> avg = (if vs = [] then None
                   else Some (js_div_length
                     (foldl (\<lambda>a b. js_add a b) (Num 0) (map (\<lambda>(u, d). Num (vote_value d)) vs))
                     (length vs))),
            count = length vs \<rparr>"
      by (rule summary_revealed)
    show "summary True [] = Some \<lparr> avg = None, count = 0 \<rparr>"
      by (simp add: summary_def)
    show "map (\<lambda>(u, d). vote_value d) vs = map of_nat ks
        \<and> sum_list ks \<le> 2 ^ 53 \<and> length ks < 2 ^ 32 \<longrightarrow>
        summary True vs =
          Some \<lparr> avg = (if ks = [] then None else Some (fl (?S / ?n))), count = length ks \<rparr>
        \<and> (ks \<noteq> [] \<and> length ks dvd sum_list ks \<longrightarrow>
             summary True vs =
               Some \<lparr> avg = Some (Num (of_nat (sum_list ks div length ks))),
                      count = length ks \<rparr>)
        \<and> (ks \<noteq> [] \<longrightarrow>
             (\<exists>y. summary True vs = Some \<lparr> avg = Some (Num y), count = length ks \<rparr>
                \<and> \<bar>y - ?S / ?n\<bar> \<le> ?S / ?n / 2 ^ 53))"
      using nat by (rule impI)
  qed (rule p e1 e2 e3 e4)+
qed

theorem summary_average_witness:
  "map (\<lambda>(u, d). vote_value d)
     [(''ann'', \<lparr> vote_uid = ''ann'', vote_value = 0, vote_createdAt = 4 \<rparr>),
      (''bo'', \<lparr> vote_uid = ''bo'', vote_value = 8, vote_createdAt = 5 \<rparr>)] = map of_nat [0, 8]
   \<and> sum_list [0, 8 :: nat] \<le> 2 ^ 53 \<and> length [0, 8 :: nat] < 2 ^ 32
   \<and> length [0, 8 :: nat] dvd sum_list [0, 8]
   \<and> summary True
       [(''ann'', \<lparr> vote_uid = ''ann'', vote_value = 0, vote_createdAt = 4 \<rparr>),
        (''bo'', \<lparr> vote_uid = ''bo'', vote_value = 8, vote_createdAt = 5 \<rparr>)] =
       Some \<lparr> avg = Some (Num 4), count = 2 \<rparr>
   \<and> map (\<lambda>(u, d). vote_value d)
       [(''ann'', \<lparr> vote_uid = ''ann'', vote_value = 1, vote_createdAt = 4 \<rparr>),
        (''bo'', \<lparr> vote_uid = ''bo'', vote_value = 1, vote_createdAt = 5 \<rparr>),
        (''cy'', \<lparr> vote_uid = ''cy'', vote_value = 2, vote_createdAt = 6 \<rparr>)]
       = map of_nat [1, 1, 2]
   \<and> sum_list [1, 1, 2 :: nat] \<le> 2 ^ 53 \<and> length [1, 1, 2 :: nat] < 2 ^ 32
   \<and> summary True
       [(''ann'', \<lparr> vote_uid = ''ann'', vote_value = 1, vote_createdAt = 4 \<rparr>),
        (''bo'', \<lparr> vote_uid = ''bo'', vote_value = 1, vote_createdAt = 5 \<rparr>),
        (''cy'', \<lparr> vote_uid = ''cy'', vote_value = 2, vote_createdAt = 6 \<rparr>)] =
       Some \<lparr> avg = Some (fl (4 / 3)), count = 3 \<rparr>
   \<and> fl (4 / 3) = Num (6004799503160661 / 4503599627370496)"
proof -
  let ?vs = "[(''ann'', \<lparr> vote_uid = ''ann'', vote_value = 0, vote_createdAt = 4 \<rparr>),
      (''bo'', \<lparr> vote_uid = ''bo'', vote_value = 8, vote_createdAt = 5 \<rparr>)]"
  let ?ws = "[(''ann'', \<lparr> vote_uid = ''ann'', vote_value = 1, vote_createdAt = 4 \<rparr>),
      (''bo'', \<lparr> vote_uid = ''bo'', vote_value = 1, vote_createdAt = 5 \<rparr>),
      (''cy'', \<lparr> vote_uid = ''cy'', vote_value = 2, vote_createdAt = 6 \<rparr>)]"
  have h: "map (\<lambda>(u, d). vote_value d) ?vs = map of_nat [0, 8]
        \<and> sum_list [0, 8 :: nat] \<le> 2 ^ 53 \<and> length [0, 8 :: nat] < 2 ^ 32"
    by simp
  have q: "(8 :: nat) div Suc (Suc 0) = 4" by (simp add: numeral_2_eq_2 [symmetric])
  have "Suc (Suc 0) dvd (8 :: nat)" by (simp add: numeral_2_eq_2 [symmetric])
  then have d: "[0, 8 :: nat] \<noteq> [] \<and> length [0, 8 :: nat] dvd sum_list [0, 8]" by simp
  note t = summary_average [where vs = ?vs and ks = "[0, 8]",
      THEN conjunct2, THEN conjunct2, THEN conjunct1, THEN mp, OF h]
  from t [THEN conjunct2, THEN conjunct1, THEN mp, OF d]
  have a: "summary True ?vs = Some \<lparr> avg = Some (Num 4), count = 2 \<rparr>" by (simp add: q)
  have k: "map (\<lambda>(u, d). vote_value d) ?ws = map of_nat [1, 1, 2]
        \<and> sum_list [1, 1, 2 :: nat] \<le> 2 ^ 53 \<and> length [1, 1, 2 :: nat] < 2 ^ 32"
    by simp
  from summary_average [where vs = ?ws and ks = "[1, 1, 2]",
      THEN conjunct2, THEN conjunct2, THEN conjunct1, THEN mp, OF k, THEN conjunct1]
  have b: "summary True ?ws = Some \<lparr> avg = Some (fl (4 / 3)), count = 3 \<rparr>" by simp
  have c: "fl (4 / 3) = Num (6004799503160661 / 4503599627370496)"
    by (simp add: fl_eval)
  from h d a k b c show ?thesis by simp
qed

subsection \<open>Joining and creating a room\<close>

lemma commit_MergeParticipant:
  "commit pol (MergeParticipant c u d) s = (Inr x, s') \<Longrightarrow>
     s' = s\<lparr>participants :=
            AList.update (c, u)
              (case map_of (participants s) (c, u) of
                 None \<Rightarrow> d
               | Some old \<Rightarrow> merge_participant d old)
              (participants s)\<rparr>"
  by (auto simp: commit_def split: option.splits)

lemma merge_participant_full:
  "merge_participant
     \<lparr> participant_uid = Some a, participant_name = Some b,
       joinedAt = Some c, lastSeenAt = Some d \<rparr> old
   = \<lparr> participant_uid = Some a, participant_name = Some b,
       joinedAt = Some c, lastSeenAt = Some d \<rparr>"
  by (simp add: merge_participant_def)

lemma commit_participant_stored:
  assumes "commit pol (MergeParticipant c u
             \<lparr> participant_uid = Some a, participant_name = Some b,
               joinedAt = Some t, lastSeenAt = Some t' \<rparr>) s = (Inr x, s')"
  shows "s' = s\<lparr>participants := AList.update (c, u)
             \<lparr> participant_uid = Some a, participant_name = Some b,
               joinedAt = Some t, lastSeenAt = Some t' \<rparr> (participants s)\<rparr>"
  using commit_MergeParticipant [OF assms]
  by (simp add: merge_participant_full split: option.splits)

lemma trim_empty: "trim name = [] \<longleftrightarrow> (\<forall>c \<in> set name. is_space c)"
proof
  assume "trim name = []"
  then have "dropWhile is_space (rev (dropWhile is_space name)) = []" by (simp add: trim_def)
  then have "\<forall>c \<in> set (rev (dropWhile is_space name)). is_space c"
    by (simp add: dropWhile_eq_Nil_conv)
  then have "dropWhile is_space name = []"
    by (metis dropWhile_eq_Nil_conv hd_dropWhile hd_in_set set_rev)
  then show "\<forall>c \<in> set name. is_space c" by (simp add: dropWhile_eq_Nil_conv)
next
  assume "\<forall>c \<in> set name. is_space c"
  then have "dropWhile is_space name = []" by (simp add: dropWhile_eq_Nil_conv)
  then show "trim name = []" by (simp only: trim_def rev.simps dropWhile.simps)
qed

lemma joinRoom_success:
  assumes "joinRoom pol user now code name s = (Inr x, s')"
  shows "\<exists>uid. user = Inr uid
           \<and> s' = s\<lparr>participants := AList.update (normalizeRoomCode code, uid)
                 \<lparr> participant_uid = Some uid,
                   participant_name = Some (or_else (trim name) ''Guest''),
                   joinedAt = Some now, lastSeenAt = Some now \<rparr> (participants s)\<rparr>"
proof (cases user)
  case (Inl e)
  with assms show ?thesis by (simp add: joinRoom_def)
next
  case (Inr uid)
  let ?w = "MergeParticipant (normalizeRoomCode code) uid
              \<lparr> participant_uid = Some uid,
                participant_name = Some (or_else (trim name) ''Guest''),
                joinedAt = Some now, lastSeenAt = Some now \<rparr>"
  obtain r1 s1 where c: "commit pol ?w s = (r1, s1)" by fastforce
  with assms Inr obtain u where "r1 = Inr u" "s1 = s'"
    by (cases "doc [''rooms'', normalizeRoomCode code, ''participants'', uid]")
      (auto simp: joinRoom_def Let_def split: sum.splits error.splits if_splits)
  with c have "commit pol ?w s = (Inr u, s')" by simp
  from commit_participant_stored [OF this] Inr show ?thesis by simp
qed

lemma createRoom_try_success:
  assumes "createRoom_try pol code uid room
             \<lparr> participant_uid = Some a, participant_name = Some b,
               joinedAt = Some t, lastSeenAt = Some t' \<rparr> s = (Inr x, s')"
  shows "map_of (participants s') (code, uid) =
           Some \<lparr> participant_uid = Some a, participant_name = Some b,
                  joinedAt = Some t, lastSeenAt = Some t' \<rparr>
       \<and> map_of (rooms s') code = Some room"
proof -
  obtain r1 s1 where c1: "commit pol (SetRoom code room) s = (r1, s1)" by fastforce
  with assms obtain u where r1: "r1 = Inr u"
    by (cases r1) (auto simp: createRoom_try_def)
  from c1 r1 have s1: "s1 = s\<lparr>rooms := AList.update code room (rooms s)\<rparr>"
    by (auto simp: commit_def split: option.splits)
  from assms c1 r1 have "commit pol (MergeParticipant code uid
             \<lparr> participant_uid = Some a, participant_name = Some b,
               joinedAt = Some t, lastSeenAt = Some t' \<rparr>) s1 = (Inr x, s')"
    by (simp add: createRoom_try_def)
  from commit_participant_stored [OF this] s1 show ?thesis
    by (simp add: update_conv')
qed

lemma createRoom_loop_success:
  assumes "createRoom_loop pol rnd now uid name attempt s = (Inr code, s')"
  shows "\<exists>a s1. attempt \<le> a \<and> a < 10 \<and> code = generateRoomCode rnd (4 * a)
           \<and> createRoom_try pol code uid
                 \<lparr> room_code = code, room_createdAt = now, room_createdBy = uid,
                   currentRoundId = None, updatedAt = now \<rparr>
                 \<lparr> participant_uid = Some uid,
                   participant_name = Some (or_else (trim name) ''Guest''),
                   joinedAt = Some now, lastSeenAt = Some now \<rparr> s1 = (Inr (), s')"
  using assms
proof (induction "10 - attempt" arbitrary: attempt s)
  case 0
  then show ?case by (simp add: createRoom_loop_done)
next
  case (Suc n)
  then have lt: "attempt < 10" by simp
  let ?code = "generateRoomCode rnd (4 * attempt)"
  let ?t = "createRoom_try pol ?code uid
             \<lparr> room_code = ?code, room_createdAt = now,
               room_createdBy = uid, currentRoundId = None, updatedAt = now \<rparr>
             \<lparr> participant_uid = Some uid,
               participant_name = Some (or_else (trim name) ''Guest''),
               joinedAt = Some now, lastSeenAt = Some now \<rparr> s"
  obtain r s2 where t: "?t = (r, s2)" by (cases ?t)
  show ?case
  proof (cases r)
    case (Inr u)
    with t Suc.prems lt have "code = ?code" "s2 = s'"
      by (simp_all add: createRoom_loop_unfold)
    with t Inr lt show ?thesis by (intro exI [of _ attempt] exI [of _ s]) simp
  next
    case (Inl e)
    obtain msg where e: "e = Error msg" by (cases e)
    from t Inl e Suc.prems lt
    have next_: "createRoom_loop pol rnd now uid name (attempt + 1) s2 = (Inr code, s')"
      by (simp add: createRoom_loop_unfold split: if_splits)
    from Suc.hyps(2) have "n = 10 - (attempt + 1)" by simp
    from Suc.hyps(1) [OF this next_] obtain a s1 where
      "attempt + 1 \<le> a" "a < 10" "code = generateRoomCode rnd (4 * a)"
      "createRoom_try pol code uid
                 \<lparr> room_code = code, room_createdAt = now, room_createdBy = uid,
                   currentRoundId = None, updatedAt = now \<rparr>
                 \<lparr> participant_uid = Some uid,
                   participant_name = Some (or_else (trim name) ''Guest''),
                   joinedAt = Some now, lastSeenAt = Some now \<rparr> s1 = (Inr (), s')"
      by blast
    then show ?thesis by (intro exI [of _ a] exI [of _ s1]) simp
  qed
qed

text \<open>
  C10. A name trims to the empty string exactly when all its characters are white space.
  When \<^verbatim>\<open>joinRoom\<close> or \<^verbatim>\<open>createRoom\<close> succeeds, the caller's participant document in the
  room holds the name \<^verbatim>\<open>Guest\<close> if the given name trims to the empty string, and the
  trimmed name otherwise.
\<close>

theorem participant_name_default:
  "(trim name = [] \<longleftrightarrow> (\<forall>c \<in> set name. is_space c))
   \<and> (joinRoom pol user now code name s = (Inr x, s') \<longrightarrow>
        (\<exists>uid. user = Inr uid
           \<and> map_of (participants s') (normalizeRoomCode code, uid) =
               Some \<lparr> participant_uid = Some uid,
                      participant_name = Some (if trim name = [] then ''Guest'' else trim name),
                      joinedAt = Some now, lastSeenAt = Some now \<rparr>))
   \<and> (createRoom pol user rnd now name s = (Inr c, s'') \<longrightarrow>
        (\<exists>uid. user = Inr uid
           \<and> map_of (participants s'') (c, uid) =
               Some \<lparr> participant_uid = Some uid,
                      participant_name = Some (if trim name = [] then ''Guest'' else trim name),
                      joinedAt = Some now, lastSeenAt = Some now \<rparr>))"
proof (intro conjI impI)
  show "trim name = [] \<longleftrightarrow> (\<forall>c \<in> set name. is_space c)" by (rule trim_empty)
next
  assume "joinRoom pol user now code name s = (Inr x, s')"
  from joinRoom_success [OF this] show "\<exists>uid. user = Inr uid
           \<and> map_of (participants s') (normalizeRoomCode code, uid) =
               Some \<lparr> participant_uid = Some uid,
                      participant_name = Some (if trim name = [] then ''Guest'' else trim name),
                      joinedAt = Some now, lastSeenAt = Some now \<rparr>"
    by (auto simp: update_conv' or_else_def)
next
  assume a: "createRoom pol user rnd now name s = (Inr c, s'')"
  then obtain uid where u: "user = Inr uid" by (cases user) (auto simp: createRoom_def)
  with a have "createRoom_loop pol rnd now uid name 0 s = (Inr c, s'')"
    by (simp add: createRoom_def)
  from createRoom_loop_success [OF this] obtain s1 where
    "createRoom_try pol c uid
       \<lparr> room_code = c, room_createdAt = now, room_createdBy = uid,
         currentRoundId = None, updatedAt = now \<rparr>
       \<lparr> participant_uid = Some uid,
         participant_name = Some (or_else (trim name) ''Guest''),
         joinedAt = Some now, lastSeenAt = Some now \<rparr> s1 = (Inr (), s'')"
    by blast
  from createRoom_try_success [OF this] u
  show "\<exists>uid. user = Inr uid
           \<and> map_of (participants s'') (c, uid) =
               Some \<lparr> participant_uid = Some uid,
                      participant_name = Some (if trim name = [] then ''Guest'' else trim name),
                      joinedAt = Some now, lastSeenAt = Some now \<rparr>"
    by (simp add: or_else_def)
qed

theorem participant_name_default_witness:
  "trim '' \<newline> '' = [] \<and> trim '' Cy '' = ''Cy''
   \<and> joinRoom accept_all (Inr ''cy'') 7 ''abcd'' '' \<newline> '' lobby =
       (Inr (), lobby\<lparr>participants := participants lobby @
          [((''ABCD'', ''cy''),
            \<lparr> participant_uid = Some ''cy'', participant_name = Some ''Guest'',
              joinedAt = Some 7, lastSeenAt = Some 7 \<rparr>)]\<rparr>)
   \<and> map_of (participants (snd (joinRoom accept_all (Inr ''cy'') 7 ''abcd'' '' Cy '' lobby)))
         (''ABCD'', ''cy'') =
       Some \<lparr> participant_uid = Some ''cy'', participant_name = Some ''Cy'',
              joinedAt = Some 7, lastSeenAt = Some 7 \<rparr>
   \<and> fst (createRoom accept_all (Inr ''cy'') (\<lambda>i. 1 / 2) 7 ''   '' lobby) = Inr ''SSSS''
   \<and> map_of (participants (snd (createRoom accept_all (Inr ''cy'') (\<lambda>i. 1 / 2) 7 ''   '' lobby)))
         (''SSSS'', ''cy'') =
       Some \<lparr> participant_uid = Some ''cy'', participant_name = Some ''Guest'',
              joinedAt = Some 7, lastSeenAt = Some 7 \<rparr>"
proof -
  have t: "trim '' \<newline> '' = []" "trim '' Cy '' = ''Cy''" "trim ''   '' = []"
    by (simp_all add: trim_def is_space_def)
  have n: "normalizeRoomCode ''abcd'' = ''ABCD''" by (simp add: norm_defs)
  have j1: "joinRoom accept_all (Inr ''cy'') 7 ''abcd'' '' \<newline> '' lobby =
       (Inr (), lobby\<lparr>participants := participants lobby @
          [((''ABCD'', ''cy''),
            \<lparr> participant_uid = Some ''cy'', participant_name = Some ''Guest'',
              joinedAt = Some 7, lastSeenAt = Some 7 \<rparr>)]\<rparr>)"
    by (simp add: joinRoom_def doc_def path_segments_def commit_def accept_all_def lobby_def
        n t or_else_def Let_def)
  obtain s2 where j2: "joinRoom accept_all (Inr ''cy'') 7 ''abcd'' '' Cy '' lobby = (Inr (), s2)"
    by (simp add: joinRoom_def doc_def path_segments_def n commit_def accept_all_def Let_def)
  obtain s3 where c3: "createRoom accept_all (Inr ''cy'') (\<lambda>i. 1 / 2) 7 ''   '' lobby
      = (Inr ''SSSS'', s3)"
    by (simp add: createRoom_def createRoom_loop_unfold createRoom_try_def commit_def
        accept_all_def generateRoomCode_def numeral_nat char_at_def chars_def Let_def)
  note w = participant_name_default [THEN conjunct2]
  from w [THEN conjunct1, rule_format, OF j2] have m2:
    "map_of (participants s2) (''ABCD'', ''cy'') =
       Some \<lparr> participant_uid = Some ''cy'', participant_name = Some ''Cy'',
              joinedAt = Some 7, lastSeenAt = Some 7 \<rparr>"
    by (simp add: n t)
  from w [THEN conjunct2, rule_format, OF c3] have m3:
    "map_of (participants s3) (''SSSS'', ''cy'') =
       Some \<lparr> participant_uid = Some ''cy'', participant_name = Some ''Guest'',
              joinedAt = Some 7, lastSeenAt = Some 7 \<rparr>"
    by (simp add: t)
  from t j1 j2 m2 c3 m3 show ?thesis by simp
qed

subsection \<open>Joining a room under the access rules\<close>














subsection \<open>Creating a room when the codes are taken\<close>

lemma createRoom_loop_retry:
  assumes "attempt < 9"
    and "createRoom_try pol (generateRoomCode rnd (4 * attempt)) uid
           \<lparr> room_code = generateRoomCode rnd (4 * attempt), room_createdAt = now,
             room_createdBy = uid, currentRoundId = None, updatedAt = now \<rparr>
           \<lparr> participant_uid = Some uid,
             participant_name = Some (or_else (trim name) ''Guest''),
             joinedAt = Some now, lastSeenAt = Some now \<rparr> s = (Inl (Error msg), s2)"
    and "str_includes msg permission_denied"
  shows "createRoom_loop pol rnd now uid name attempt s
       = createRoom_loop pol rnd now uid name (attempt + 1) s2"
  using assms by (simp add: createRoom_loop_unfold)

lemma createRoom_loop_rethrow:
  assumes "attempt < 10"
    and "createRoom_try pol (generateRoomCode rnd (4 * attempt)) uid
           \<lparr> room_code = generateRoomCode rnd (4 * attempt), room_createdAt = now,
             room_createdBy = uid, currentRoundId = None, updatedAt = now \<rparr>
           \<lparr> participant_uid = Some uid,
             participant_name = Some (or_else (trim name) ''Guest''),
             joinedAt = Some now, lastSeenAt = Some now \<rparr> s = (Inl (Error msg), s2)"
    and "\<not> str_includes msg permission_denied \<or> attempt = 9"
  shows "createRoom_loop pol rnd now uid name attempt s = (Inl (Error msg), s2)"
  using assms by (auto simp add: createRoom_loop_unfold)

text \<open>Every error that the loop ends with is the error of a write of one of its ten
  attempts: the \<^verbatim>\<open>throw\<close> after the loop is never reached.\<close>

lemma createRoom_loop_error:
  assumes "createRoom_loop pol rnd now uid name attempt s = (Inl e, s')" and "attempt < 10"
  shows "\<exists>a s1. attempt \<le> a \<and> a < 10
           \<and> createRoom_try pol (generateRoomCode rnd (4 * a)) uid
                 \<lparr> room_code = generateRoomCode rnd (4 * a), room_createdAt = now,
                   room_createdBy = uid, currentRoundId = None, updatedAt = now \<rparr>
                 \<lparr> participant_uid = Some uid,
                   participant_name = Some (or_else (trim name) ''Guest''),
                   joinedAt = Some now, lastSeenAt = Some now \<rparr> s1 = (Inl e, s')"
  using assms
proof (induction "10 - attempt" arbitrary: attempt s)
  case 0
  then show ?case by simp
next
  case (Suc n)
  let ?t = "createRoom_try pol (generateRoomCode rnd (4 * attempt)) uid
             \<lparr> room_code = generateRoomCode rnd (4 * attempt), room_createdAt = now,
               room_createdBy = uid, currentRoundId = None, updatedAt = now \<rparr>
             \<lparr> participant_uid = Some uid,
               participant_name = Some (or_else (trim name) ''Guest''),
               joinedAt = Some now, lastSeenAt = Some now \<rparr> s"
  obtain r s2 where t: "?t = (r, s2)" by (cases ?t)
  show ?case
  proof (cases r)
    case (Inr u)
    with t Suc.prems show ?thesis by (simp add: createRoom_loop_unfold)
  next
    case (Inl e1)
    obtain msg where e1: "e1 = Error msg" by (cases e1)
    show ?thesis
    proof (cases "str_includes msg permission_denied \<and> attempt < 9")
      case True
      with t Inl e1 Suc.prems
      have next_: "createRoom_loop pol rnd now uid name (attempt + 1) s2 = (Inl e, s')"
        by (simp add: createRoom_loop_unfold)
      from Suc.hyps(2) True have "n = 10 - (attempt + 1)" "attempt + 1 < 10" by simp_all
      from Suc.hyps(1) [OF this(1) next_ this(2)] obtain a s1 where
        "attempt + 1 \<le> a" "a < 10"
        "createRoom_try pol (generateRoomCode rnd (4 * a)) uid
                 \<lparr> room_code = generateRoomCode rnd (4 * a), room_createdAt = now,
                   room_createdBy = uid, currentRoundId = None, updatedAt = now \<rparr>
                 \<lparr> participant_uid = Some uid,
                   participant_name = Some (or_else (trim name) ''Guest''),
                   joinedAt = Some now, lastSeenAt = Some now \<rparr> s1 = (Inl e, s')"
        by blast
      then show ?thesis by (intro exI [of _ a] exI [of _ s1]) simp
    next
      case False
      with t Inl e1 Suc.prems have "e = Error msg" "s' = s2"
        by (auto simp: createRoom_loop_unfold)
      with t Inl e1 Suc.prems(2) show ?thesis
        by (intro exI [of _ attempt] exI [of _ s]) simp
    qed
  qed
qed

text \<open>
  C4, where the code departs from it. The ten codes that the random source \<open>cycle\<close>
  yields are all taken in the store \<open>crowded\<close>, so all ten attempts collide. The call
  then fails with the permission error of its tenth write, not with the error
  \<^verbatim>\<open>Failed to create a unique room code. Please try again.\<close>
\<close>

theorem createRoom_all_attempts_collide:
  "map (\<lambda>a. generateRoomCode cycle (4 * a)) [0, 1, 2, 3, 4, 5, 6, 7, 8, 9] =
     [''ABCD'', ''EFGH'', ''JKLM'', ''NPQR'', ''STUV'', ''WXYZ'', ''2345'', ''6789'',
      ''ABCD'', ''EFGH'']
   \<and> list_all (\<lambda>a. map_of (rooms crowded) (generateRoomCode cycle (4 * a)) \<noteq> None)
         [0, 1, 2, 3, 4, 5, 6, 7, 8, 9]
   \<and> createRoom spec_rules (Inr ''ann'') cycle 5 ''Ann'' crowded =
       (Inl (Error ''Missing or insufficient permissions.''), crowded)
   \<and> fst (createRoom spec_rules (Inr ''ann'') cycle 5 ''Ann'' crowded) \<noteq>
       Inl (Error ''Failed to create a unique room code. Please try again.'')"
  by code_simp

end
